theory Spec2Isabelle
  imports Main
begin

section \<open>The battle simulation of \<^verbatim>\<open>simulate_battle.py\<close>\<close>

text \<open>
  The program keeps a 6 by 5 grid of single-character cells and four integer counters in
  a text file, and advances one row of the grid per invocation.  The embedding follows the
  source function by function.  Conventions:
  \<^item> a Python \<^verbatim>\<open>str\<close> read from or written to the state file is a \<^typ>\<open>string\<close>; a
    \<^typ>\<open>char\<close> stands for a code point below 256, so the development covers state files
    over that range (the whitespace and digit tables of Python are finite there);
  \<^item> the rendered board contains box-drawing characters and is a list of code points;
  \<^item> Python integers are \<^typ>\<open>int\<close>, and \<open>str_int\<close> and \<open>py_int\<close> convert integers of any
    size; the interpreter's default limit of 4300 digits on \<^verbatim>\<open>str\<close> and \<^verbatim>\<open>int\<close> is the
    predicate \<open>str_ok\<close>, a hypothesis of the statements on arbitrary counters that depend
    on a conversion;
  \<^item> the counters dictionary is a map from keys to integers;
  \<^item> an exception is a value \<open>Inl e\<close>; the two random draws of \<^verbatim>\<open>simulate_battle\<close> are
    parameters (the row index and whether \<^verbatim>\<open>dice < 0.5\<close>);
  \<^item> the two files are fields of a record, \<open>None\<close> for a file that does not exist; text
    is written as it is and read with Python's universal newlines.
\<close>

subsection \<open>Constants and types\<close>

definition BOARD_ROWS :: nat where
  "BOARD_ROWS = 6"

definition BOARD_COLS :: nat where
  "BOARD_COLS = 5"

datatype error = KeyError | IndexError | ValueError

type_synonym wins = "string \<rightharpoonup> int"

type_synonym board = "char list list"

type_synonym ustring = "nat list"

record files =
  state_file :: "string option"
  output_file :: "ustring option"

abbreviation LF :: char where
  "LF \<equiv> CHR 0x0A"

abbreviation CR :: char where
  "CR \<equiv> CHR 0x0D"

subsection \<open>The initial board\<close>

definition create_initial_board :: board where
  "create_initial_board =
     map (\<lambda>r. if r < BOARD_ROWS div 2
               then replicate 3 CHR ''A'' @ replicate (BOARD_COLS - 3) CHR ''B''
               else replicate (BOARD_COLS - 3) CHR ''A'' @ replicate 3 CHR ''B'')
         [0 ..< BOARD_ROWS]"

definition default_state :: "wins \<times> board" where
  "default_state =
     ([''A'' \<mapsto> 0, ''B'' \<mapsto> 0, ''DAYS'' \<mapsto> 0, ''RECORD'' \<mapsto> 0], create_initial_board)"

subsection \<open>Rows\<close>

text \<open>\<^verbatim>\<open>all(cell == row[0] for cell in row)\<close>: on the empty row the generator is empty and
  \<^verbatim>\<open>row[0]\<close> is never evaluated.\<close>

definition is_row_uniform :: "char list \<Rightarrow> bool" where
  "is_row_uniform row =
     (case row of [] \<Rightarrow> True | c0 # _ \<Rightarrow> list_all (\<lambda>cell. cell = c0) row)"

text \<open>The indices of the \<open>A\<close>-cells, in order: the generator under \<^verbatim>\<open>max\<close>.\<close>

definition a_indices :: "char list \<Rightarrow> nat list" where
  "a_indices row = map fst (filter (\<lambda>(i, cell). cell = CHR ''A'') (enumerate 0 row))"

text \<open>\<^verbatim>\<open>max\<close> of the generator, and \<open>-1\<close> where it raises \<^verbatim>\<open>ValueError\<close> on no element.\<close>

definition boundary :: "char list \<Rightarrow> int" where
  "boundary row = (case a_indices row of [] \<Rightarrow> - 1 | i # is \<Rightarrow> int (fold max is i))"

text \<open>The row invariant of the data model: a run of \<open>A\<close>-cells followed by a run of
  \<open>B\<close>-cells, either of them possibly empty.\<close>

definition single_boundary :: "char list \<Rightarrow> bool" where
  "single_boundary row =
     (let k = length (takeWhile (\<lambda>c. c = CHR ''A'') row)
      in row = replicate k CHR ''A'' @ replicate (length row - k) CHR ''B'')"

subsection \<open>Python's string primitives\<close>

text \<open>\<^verbatim>\<open>str.split()\<close> with no argument separates at runs of whitespace.  Below code
  point 256 the whitespace characters are 9 to 13, 28 to 32, 133 and 160.\<close>

definition is_space :: "char \<Rightarrow> bool" where
  "is_space c =
     (let n = (of_char c :: nat)
      in (9 \<le> n \<and> n \<le> 13) \<or> (28 \<le> n \<and> n \<le> 32) \<or> n = 133 \<or> n = 160)"

text \<open>The words of a string: \<open>cur\<close> is the word being read.\<close>

fun split_acc :: "string \<Rightarrow> string \<Rightarrow> string list" where
  "split_acc cur [] = (if cur = [] then [] else [cur])"
| "split_acc cur (c # cs) =
     (if is_space c then (if cur = [] then split_acc [] cs else cur # split_acc [] cs)
      else split_acc (cur @ [c]) cs)"

definition split :: "string \<Rightarrow> string list" where
  "split s = split_acc [] s"

text \<open>\<^verbatim>\<open>str.split(sep)\<close> with a one-character separator keeps the empty pieces.\<close>

fun split_sep_acc :: "char \<Rightarrow> string \<Rightarrow> string \<Rightarrow> string list" where
  "split_sep_acc sep cur [] = [cur]"
| "split_sep_acc sep cur (c # cs) =
     (if c = sep then cur # split_sep_acc sep [] cs else split_sep_acc sep (cur @ [c]) cs)"

definition split_sep :: "char \<Rightarrow> string \<Rightarrow> string list" where
  "split_sep sep s = split_sep_acc sep [] s"

text \<open>\<^verbatim>\<open>str(n)\<close> for an integer: decimal digits, a minus sign for a negative number.\<close>

definition digit_char :: "nat \<Rightarrow> char" where
  "digit_char d = char_of (48 + d)"

fun nat_digits :: "nat \<Rightarrow> string" where
  "nat_digits n =
     (if n < 10 then [digit_char n] else nat_digits (n div 10) @ [digit_char (n mod 10)])"

declare nat_digits.simps [simp del]

definition str_int :: "int \<Rightarrow> string" where
  "str_int i = (if i < 0 then CHR ''-'' # nat_digits (nat (- i)) else nat_digits (nat i))"

text \<open>
  \<^verbatim>\<open>int(s)\<close> in base 10: surrounding whitespace is dropped (9 to 13, 32, 133 and 160
  below code point 256), then an optional sign, then decimal digits in which single
  underscores may stand between two digits.  \<open>None\<close> is \<^verbatim>\<open>ValueError\<close>.
\<close>

definition is_int_space :: "char \<Rightarrow> bool" where
  "is_int_space c =
     (let n = (of_char c :: nat) in (9 \<le> n \<and> n \<le> 13) \<or> n = 32 \<or> n = 133 \<or> n = 160)"

definition digit_val :: "char \<Rightarrow> nat option" where
  "digit_val c =
     (let n = (of_char c :: nat) in if 48 \<le> n \<and> n \<le> 57 then Some (n - 48) else None)"

fun digits_acc :: "nat \<Rightarrow> string \<Rightarrow> nat option" where
  "digits_acc acc [] = Some acc"
| "digits_acc acc (c # cs) =
     (if c = CHR ''_''
      then (case cs of
              [] \<Rightarrow> None
            | d # ds \<Rightarrow> (case digit_val d of
                           None \<Rightarrow> None
                         | Some v \<Rightarrow> digits_acc (10 * acc + v) ds))
      else (case digit_val c of
              None \<Rightarrow> None
            | Some v \<Rightarrow> digits_acc (10 * acc + v) cs))"

definition py_digits :: "string \<Rightarrow> nat option" where
  "py_digits s =
     (case s of
        [] \<Rightarrow> None
      | c # cs \<Rightarrow> (case digit_val c of None \<Rightarrow> None | Some v \<Rightarrow> digits_acc v cs))"

definition strip_int :: "string \<Rightarrow> string" where
  "strip_int s = rev (dropWhile is_int_space (rev (dropWhile is_int_space s)))"

definition py_int :: "string \<Rightarrow> int option" where
  "py_int s =
     (case strip_int s of
        [] \<Rightarrow> None
      | c # cs \<Rightarrow>
          if c = CHR ''-'' then map_option (\<lambda>n. - int n) (py_digits cs)
          else if c = CHR ''+'' then map_option int (py_digits cs)
          else map_option int (py_digits (c # cs)))"

text \<open>The decimal digits \<open>0\<close> to \<open>9\<close>.\<close>

definition is_digit :: "char \<Rightarrow> bool" where
  "is_digit c = (48 \<le> (of_char c :: nat) \<and> (of_char c :: nat) \<le> 57)"

subsection \<open>Reading text files\<close>

text \<open>Universal newlines: on reading, \<open>CR LF\<close> and a lone \<open>CR\<close> become \<open>LF\<close>.\<close>

fun universal_newlines :: "string \<Rightarrow> string" where
  "universal_newlines [] = []"
| "universal_newlines (c # cs) =
     (if c = CR
      then (case cs of
              [] \<Rightarrow> [LF]
            | d # ds \<Rightarrow> if d = LF then LF # universal_newlines ds
                        else LF # universal_newlines (d # ds))
      else c # universal_newlines cs)"

text \<open>\<^verbatim>\<open>f.readlines()\<close>: every line keeps its \<open>LF\<close>; a last line without one is kept too.\<close>

fun readlines_acc :: "string \<Rightarrow> string \<Rightarrow> string list" where
  "readlines_acc cur [] = (if cur = [] then [] else [cur])"
| "readlines_acc cur (c # cs) =
     (if c = LF then (cur @ [c]) # readlines_acc [] cs else readlines_acc (cur @ [c]) cs)"

definition readlines :: "string \<Rightarrow> string list" where
  "readlines s = readlines_acc [] (universal_newlines s)"

text \<open>\<^verbatim>\<open>line.rstrip('\n')\<close>\<close>

definition rstrip_nl :: "string \<Rightarrow> string" where
  "rstrip_nl s = rev (dropWhile (\<lambda>c. c = LF) (rev s))"

subsection \<open>Loading and saving the state\<close>

text \<open>The loop body \<^verbatim>\<open>key, count = part.split(':'); wins[key] = int(count)\<close>: unpacking
  anything but two pieces raises \<^verbatim>\<open>ValueError\<close>, as does a count that is no integer.\<close>

definition parse_part :: "string \<Rightarrow> error + (string \<times> int)" where
  "parse_part part =
     (case split_sep CHR '':'' part of
        [key, count] \<Rightarrow>
          (case py_int count of None \<Rightarrow> Inl ValueError | Some n \<Rightarrow> Inr (key, n))
      | _ \<Rightarrow> Inl ValueError)"

fun parse_parts :: "wins \<Rightarrow> string list \<Rightarrow> error + wins" where
  "parse_parts wins [] = Inr wins"
| "parse_parts wins (part # parts) =
     (case parse_part part of
        Inl e \<Rightarrow> Inl e
      | Inr (key, n) \<Rightarrow> parse_parts (wins(key \<mapsto> n)) parts)"

text \<open>The lines of the state file as the list comprehension of \<open>load_state\<close> builds them.\<close>

definition file_lines :: "string \<Rightarrow> string list" where
  "file_lines content = map rstrip_nl (readlines content)"

text \<open>The body of the \<^verbatim>\<open>try\<close> block of \<open>load_state\<close>, exceptions as \<open>Inl\<close>.\<close>

definition read_state :: "string \<Rightarrow> error + (wins \<times> board)" where
  "read_state content =
     (let lines = file_lines content
      in if length lines < 1 + BOARD_ROWS then Inr default_state
         else
           let parts = split (lines ! 0)
           in case parse_parts Map.empty (drop 1 parts) of
                Inl e \<Rightarrow> Inl e
              | Inr wins \<Rightarrow>
                  let wins = (if ''DAYS'' \<notin> dom wins then wins(''DAYS'' \<mapsto> 0) else wins);
                      wins = (if ''RECORD'' \<notin> dom wins then wins(''RECORD'' \<mapsto> 0) else wins);
                      board_lines = take BOARD_ROWS (drop 1 lines)
                  in if list_ex (\<lambda>line. length line \<noteq> BOARD_COLS) board_lines
                     then Inr default_state
                     else Inr (wins, board_lines))"

text \<open>\<open>load_state\<close>: a missing file, and any exception of the body, give the default state.\<close>

definition load_state :: "files \<Rightarrow> wins \<times> board" where
  "load_state fs =
     (case state_file fs of
        None \<Rightarrow> default_state
      | Some content \<Rightarrow>
          (case read_state content of Inl e \<Rightarrow> default_state | Inr st \<Rightarrow> st))"

text \<open>The first line that \<open>save_state\<close> formats; a missing key raises \<^verbatim>\<open>KeyError\<close>.\<close>

definition lookup :: "wins \<Rightarrow> string \<Rightarrow> error + int" where
  "lookup wins key = (case wins key of None \<Rightarrow> Inl KeyError | Some n \<Rightarrow> Inr n)"

definition wins_line :: "wins \<Rightarrow> error + string" where
  "wins_line wins =
     (case lookup wins ''A'' of Inl e \<Rightarrow> Inl e | Inr a \<Rightarrow>
      case lookup wins ''B'' of Inl e \<Rightarrow> Inl e | Inr b \<Rightarrow>
      case lookup wins ''DAYS'' of Inl e \<Rightarrow> Inl e | Inr d \<Rightarrow>
      case lookup wins ''RECORD'' of Inl e \<Rightarrow> Inl e | Inr r \<Rightarrow>
        Inr (''WINS A:'' @ str_int a @ '' B:'' @ str_int b @ '' DAYS:'' @ str_int d
             @ '' RECORD:'' @ str_int r @ [LF]))"

text \<open>\<open>save_state\<close>: opening the file for writing empties it before the first line is
  formatted, so a \<^verbatim>\<open>KeyError\<close> leaves an empty file behind.\<close>

definition save_state :: "wins \<Rightarrow> board \<Rightarrow> files \<Rightarrow> (error + unit) \<times> files" where
  "save_state wins board fs =
     (case wins_line wins of
        Inl e \<Rightarrow> (Inl e, fs\<lparr>state_file := Some []\<rparr>)
      | Inr line \<Rightarrow>
          (Inr (), fs\<lparr>state_file := Some (line @ concat (map (\<lambda>row. row @ [LF]) board))\<rparr>))"

text \<open>The first line of a saved state file, without its line end.\<close>

definition counters_text :: "int \<Rightarrow> int \<Rightarrow> int \<Rightarrow> int \<Rightarrow> string" where
  "counters_text a b d r =
     ''WINS A:'' @ str_int a @ '' B:'' @ str_int b @ '' DAYS:'' @ str_int d
     @ '' RECORD:'' @ str_int r"

subsection \<open>Rendering\<close>

definition ustr :: "string \<Rightarrow> ustring" where
  "ustr s = map of_char s"

text \<open>\<^verbatim>\<open>sep.join(parts)\<close>\<close>

fun join :: "ustring \<Rightarrow> ustring list \<Rightarrow> ustring" where
  "join sep [] = []"
| "join sep [x] = x"
| "join sep (x # y # ys) = x @ sep @ join sep (y # ys)"

text \<open>\<^verbatim>\<open>s.center(width)\<close>: the padding is split in two, and the left side takes the odd
  space when the padding and the width are both odd.\<close>

definition center :: "nat \<Rightarrow> ustring \<Rightarrow> ustring" where
  "center width s =
     (if width \<le> length s then s
      else
        let marg = width - length s;
            left = marg div 2 + (if odd marg \<and> odd width then 1 else 0)
        in replicate left 32 @ s @ replicate (marg - left) 32)"

definition border :: "nat \<Rightarrow> nat \<Rightarrow> nat \<Rightarrow> nat \<Rightarrow> nat \<Rightarrow> ustring" where
  "border l m r cell_width num_cols =
     [l] @ join [m] (map (\<lambda>_. replicate cell_width 0x2500) [0 ..< num_cols]) @ [r]"

definition generate_ascii_board :: "board \<Rightarrow> wins \<Rightarrow> error + ustring" where
  "generate_ascii_board board wins =
     (let cell_width = 5
      in case board of
           [] \<Rightarrow> Inl IndexError
         | row0 # _ \<Rightarrow>
             let num_cols = length row0
             in case lookup wins ''A'' of Inl e \<Rightarrow> Inl e | Inr a \<Rightarrow>
                case lookup wins ''B'' of Inl e \<Rightarrow> Inl e | Inr b \<Rightarrow>
                case lookup wins ''DAYS'' of Inl e \<Rightarrow> Inl e | Inr d \<Rightarrow>
                case lookup wins ''RECORD'' of Inl e \<Rightarrow> Inl e | Inr r \<Rightarrow>
                  let header = ustr (''Wins - A: '' @ str_int a @ '' | B: '' @ str_int b @ [LF]
                                     @ ''Days: '' @ str_int d @ ''   Record: '' @ str_int r
                                     @ [LF, LF]);
                      top_border = border 0x250C 0x252C 0x2510 cell_width num_cols;
                      middle_border = border 0x251C 0x253C 0x2524 cell_width num_cols;
                      bottom_border = border 0x2514 0x2534 0x2518 cell_width num_cols;
                      row_lines =
                        concat (map (\<lambda>(i, row).
                                  ([0x2502]
                                   @ join [0x2502] (map (\<lambda>cell. center cell_width [of_char cell]) row)
                                   @ [0x2502])
                                  # (if i < length board - 1 then [middle_border] else []))
                                (enumerate 0 board))
                  in Inr (join [of_char LF] ([header, top_border] @ row_lines @ [bottom_border])))"

subsection \<open>The battle step\<close>

text \<open>The non-win branch's counter update: \<^verbatim>\<open>wins['DAYS'] += 1\<close>, then the record is
  raised to the day count when that exceeds it.\<close>

definition advance_days :: "wins \<Rightarrow> error + wins" where
  "advance_days wins =
     (case lookup wins ''DAYS'' of Inl e \<Rightarrow> Inl e | Inr d \<Rightarrow>
        let wins = wins(''DAYS'' \<mapsto> d + 1)
        in case lookup wins ''DAYS'' of Inl e \<Rightarrow> Inl e | Inr d' \<Rightarrow>
           case lookup wins ''RECORD'' of Inl e \<Rightarrow> Inl e | Inr r \<Rightarrow>
             if d' > r then Inr (wins(''RECORD'' \<mapsto> d')) else Inr wins)"

text \<open>The loop \<^verbatim>\<open>for i in range(BOARD_COLS): row[i] = 'A' if i <= new_boundary else 'B'\<close>;
  an index beyond the row raises \<^verbatim>\<open>IndexError\<close>.\<close>

fun rewrite_cells :: "int \<Rightarrow> nat list \<Rightarrow> char list \<Rightarrow> error + char list" where
  "rewrite_cells new_boundary [] row = Inr row"
| "rewrite_cells new_boundary (i # is) row =
     (if i < length row
      then rewrite_cells new_boundary is
             (row[i := (if int i \<le> new_boundary then CHR ''A'' else CHR ''B'')])
      else Inl IndexError)"

definition rewrite_row :: "int \<Rightarrow> char list \<Rightarrow> error + char list" where
  "rewrite_row new_boundary row = rewrite_cells new_boundary [0 ..< BOARD_COLS] row"

text \<open>The clamped move of the boundary; \<open>heads\<close> is the outcome of \<^verbatim>\<open>dice < 0.5\<close>.\<close>

definition move_boundary :: "int \<Rightarrow> bool \<Rightarrow> int" where
  "move_boundary b heads =
     (let new_boundary = (if heads then b + 1 else b - 1);
          new_boundary = max new_boundary (- 1);
          new_boundary = min new_boundary (int BOARD_COLS - 1)
      in new_boundary)"

text \<open>The body of \<open>simulate_battle\<close> between loading and saving: the counters and the board
  that are saved, and the text that is written out.\<close>

definition battle_step ::
  "wins \<Rightarrow> board \<Rightarrow> nat \<Rightarrow> bool \<Rightarrow> error + (wins \<times> board \<times> ustring)" where
  "battle_step wins board row_index heads =
     (if length board \<le> row_index then Inl IndexError
      else
        let row = board ! row_index;
            b = boundary row
        in if b = int BOARD_COLS - 1 \<or> b = - 1
           then
             let winner = (if b = int BOARD_COLS - 1 then ''A'' else ''B'');
                 message = ustr (''Faction '' @ winner @ '' wins on row ''
                                 @ str_int (int row_index + 1) @ ''!'')
             in case generate_ascii_board board wins of Inl e \<Rightarrow> Inl e | Inr final_state \<Rightarrow>
                case lookup wins winner of Inl e \<Rightarrow> Inl e | Inr tally \<Rightarrow>
                  let wins = wins(winner \<mapsto> tally + 1);
                      wins = wins(''DAYS'' \<mapsto> 0);
                      board = create_initial_board
                  in case generate_ascii_board board wins of Inl e \<Rightarrow> Inl e | Inr reset_state \<Rightarrow>
                       Inr (wins, board,
                            message @ ustr ([LF, LF] @ ''Final board state:'' @ [LF]) @ final_state
                            @ ustr ([LF, LF] @ ''Board reset to initial state:'' @ [LF])
                            @ reset_state)
           else
             case advance_days wins of Inl e \<Rightarrow> Inl e | Inr wins \<Rightarrow>
             case rewrite_row (move_boundary b heads) row of Inl e \<Rightarrow> Inl e | Inr row \<Rightarrow>
               let board = board[row_index := row]
               in case generate_ascii_board board wins of Inl e \<Rightarrow> Inl e | Inr ascii_output \<Rightarrow>
                    Inr (wins, board, ascii_output))"

text \<open>\<open>simulate_battle\<close>: load, step, save, write the output file, return the output.\<close>

definition simulate_battle :: "files \<Rightarrow> nat \<Rightarrow> bool \<Rightarrow> (error + ustring) \<times> files" where
  "simulate_battle fs row_index heads =
     (case load_state fs of (wins, board) \<Rightarrow>
        case battle_step wins board row_index heads of
          Inl e \<Rightarrow> (Inl e, fs)
        | Inr (wins, board, ascii_output) \<Rightarrow>
            (case save_state wins board fs of
               (Inl e, fs) \<Rightarrow> (Inl e, fs)
             | (Inr _, fs) \<Rightarrow> (Inr ascii_output, fs\<lparr>output_file := Some ascii_output\<rparr>)))"

subsection \<open>Shapes of boards\<close>

text \<open>No cell is a line feed or a carriage return.\<close>

definition no_newline :: "board \<Rightarrow> bool" where
  "no_newline board = list_all (\<lambda>row. LF \<notin> set row \<and> CR \<notin> set row) board"

text \<open>Six rows of five cells.\<close>

definition grid_shape :: "board \<Rightarrow> bool" where
  "grid_shape board =
     (length board = BOARD_ROWS \<and> list_all (\<lambda>row. length row = BOARD_COLS) board)"

text \<open>Neither file exists.\<close>

definition no_files :: files where
  "no_files = \<lparr>state_file = None, output_file = None\<rparr>"

subsection \<open>Example files\<close>

text \<open>The text of a file whose lines are given, each ended by a line feed.\<close>

definition unlines :: "string list \<Rightarrow> string" where
  "unlines lines = concat (map (\<lambda>line. line @ [LF]) lines)"

definition state_of_lines :: "string list \<Rightarrow> files" where
  "state_of_lines lines = \<lparr>state_file = Some (unlines lines), output_file = None\<rparr>"

text \<open>A state file in which row 1 is held by \<open>A\<close> alone.\<close>

definition won_lines :: "string list" where
  "won_lines =
     [''WINS A:0 B:0 DAYS:2 RECORD:2'',
      ''AAAAA'', ''AAABB'', ''AAABB'', ''AABBB'', ''AABBB'', ''AABBB'']"

text \<open>A state file with a line after the six rows.\<close>

definition long_lines :: "string list" where
  "long_lines =
     [''WINS A:1 B:0 DAYS:0 RECORD:0'',
      ''AAABB'', ''AAABB'', ''AAABB'', ''AABBB'', ''AABBB'', ''AABBB'', ''AAABB'']"

text \<open>A state file whose first counter is no integer.\<close>

definition bad_token_lines :: "string list" where
  "bad_token_lines =
     [''WINS A:x B:0 DAYS:0 RECORD:0'',
      ''AAAAA'', ''AAAAA'', ''AAAAA'', ''AAAAA'', ''AAAAA'', ''AAAAA'']"

text \<open>A state file whose rows hold other letters than \<open>A\<close> and \<open>B\<close>.\<close>

definition foreign_lines :: "string list" where
  "foreign_lines =
     [''WINS A:1 B:2 DAYS:3 RECORD:4'',
      ''XYZZY'', ''AAABB'', ''AAABB'', ''AABBB'', ''AABBB'', ''AABBB'']"

text \<open>A counter token parses when the loop body of \<open>load_state\<close> raises nothing on it.\<close>

definition parses :: "string \<Rightarrow> bool" where
  "parses part = (case parse_part part of Inl e \<Rightarrow> False | Inr kv \<Rightarrow> True)"

text \<open>The cell alphabet of the data model: every cell is \<open>A\<close> or \<open>B\<close>.\<close>

definition alphabet_ok :: "board \<Rightarrow> bool" where
  "alphabet_ok board =
     list_all (\<lambda>row. list_all (\<lambda>cell. cell = CHR ''A'' \<or> cell = CHR ''B'') row) board"

subsection \<open>The interpreter's conversion limit\<close>

text \<open>By default \<^verbatim>\<open>str\<close> and \<^verbatim>\<open>int\<close> raise \<^verbatim>\<open>ValueError\<close> on an integer of more than 4300
  decimal digits, the sign apart.\<close>

definition int_max_str_digits :: nat where
  "int_max_str_digits = 4300"

definition str_ok :: "int \<Rightarrow> bool" where
  "str_ok i = (length (nat_digits (nat (abs i))) \<le> int_max_str_digits)"

text \<open>The four counters are there and \<^verbatim>\<open>str\<close> converts each of them.\<close>

definition counters_ok :: "wins \<Rightarrow> bool" where
  "counters_ok wins =
     list_all (\<lambda>key. case wins key of None \<Rightarrow> False | Some n \<Rightarrow> str_ok n)
       [''A'', ''B'', ''DAYS'', ''RECORD'']"

subsection \<open>State files without a tally\<close>



subsection \<open>Facts about rows\<close>

lemma a_indices_snoc:
  "a_indices (row @ [c]) = a_indices row @ (if c = CHR ''A'' then [length row] else [])"
  by (simp add: a_indices_def enumerate_append_eq)

lemma a_indices_bound: "i \<in> set (a_indices row) \<Longrightarrow> i < length row"
  by (auto simp: a_indices_def in_set_enumerate_eq)

lemma boundary_Max:
  "boundary row = (if a_indices row = [] then - 1 else int (Max (set (a_indices row))))"
proof (cases "a_indices row")
  case Nil
  then show ?thesis by (simp add: boundary_def)
next
  case (Cons i rest)
  have "fold max rest i = Max (set (i # rest))"
    by (rule Max.set_eq_fold [symmetric])
  with Cons show ?thesis by (simp add: boundary_def)
qed

lemma boundary_snoc:
  "boundary (row @ [c]) = (if c = CHR ''A'' then int (length row) else boundary row)"
proof (cases "c = CHR ''A''")
  case True
  have "Max (insert (length row) (set (a_indices row))) = length row"
    by (rule Max_eqI) (auto dest: a_indices_bound less_imp_le)
  with True show ?thesis
    by (simp add: boundary_Max a_indices_snoc)
next
  case False
  then show ?thesis
    by (simp add: boundary_Max a_indices_snoc)
qed

lemma boundary_Nil: "boundary [] = - 1"
  by (simp add: boundary_def a_indices_def)

lemma boundary_range: "- 1 \<le> boundary row \<and> boundary row < int (length row)"
  by (induction row rule: rev_induct) (auto simp: boundary_Nil boundary_snoc)

lemma boundary_no_A: "boundary row = - 1 \<longleftrightarrow> CHR ''A'' \<notin> set row"
proof (induction row rule: rev_induct)
  case Nil
  show ?case by (simp add: boundary_Nil)
next
  case (snoc c row)
  then show ?case by (auto simp: boundary_snoc)
qed

lemma boundary_last:
  "row \<noteq> [] \<Longrightarrow> boundary row = int (length row) - 1 \<longleftrightarrow> last row = CHR ''A''"
proof (induction row rule: rev_induct)
  case Nil
  then show ?case by simp
next
  case (snoc c row)
  have "boundary row < int (length row)"
    using boundary_range [of row] by simp
  then show ?case by (auto simp: boundary_snoc)
qed

lemma boundary_prefix:
  "boundary (replicate k CHR ''A'' @ replicate m CHR ''B'') = int k - 1"
proof (induction m)
  case 0
  show ?case
  proof (cases k)
    case 0
    then show ?thesis by (simp add: boundary_Nil)
  next
    case (Suc j)
    have "boundary (replicate j CHR ''A'' @ [CHR ''A'']) = int j"
      by (simp only: boundary_snoc) simp
    with Suc show ?thesis by (simp add: replicate_append_same)
  qed
next
  case (Suc m)
  have "boundary ((replicate k CHR ''A'' @ replicate m CHR ''B'') @ [CHR ''B''])
        = boundary (replicate k CHR ''A'' @ replicate m CHR ''B'')"
    by (simp only: boundary_snoc) simp
  with Suc show ?case by (simp add: replicate_append_same)
qed

lemma single_boundary_iff:
  "single_boundary row \<longleftrightarrow>
     (\<exists>k\<le>length row. row = replicate k CHR ''A'' @ replicate (length row - k) CHR ''B'')"
proof
  assume "single_boundary row"
  then show "\<exists>k\<le>length row. row = replicate k CHR ''A'' @ replicate (length row - k) CHR ''B''"
    unfolding single_boundary_def Let_def
    by (intro exI [of _ "length (takeWhile (\<lambda>c. c = CHR ''A'') row)"])
       (simp add: length_takeWhile_le)
next
  assume "\<exists>k\<le>length row. row = replicate k CHR ''A'' @ replicate (length row - k) CHR ''B''"
  then obtain k where k: "k \<le> length row"
    and row: "row = replicate k CHR ''A'' @ replicate (length row - k) CHR ''B''"
    by blast
  define m where "m = length row - k"
  have tw: "takeWhile (\<lambda>c. c = CHR ''A'') (replicate k CHR ''A'' @ replicate m CHR ''B'')
            = replicate k CHR ''A''"
    by (cases m) (simp_all add: takeWhile_append2 takeWhile_tail)
  have "length (replicate k CHR ''A'' @ replicate m CHR ''B'') - k = m"
    by simp
  then have "single_boundary (replicate k CHR ''A'' @ replicate m CHR ''B'')"
    unfolding single_boundary_def Let_def tw by simp
  with row show "single_boundary row"
    unfolding m_def by simp
qed

lemma single_boundary_uniform:
  assumes "single_boundary row" "row \<noteq> []"
  shows "is_row_uniform row \<longleftrightarrow> boundary row = - 1 \<or> boundary row = int (length row) - 1"
proof -
  from assms(1) obtain k where k: "k \<le> length row"
    and row: "row = replicate k CHR ''A'' @ replicate (length row - k) CHR ''B''"
    unfolding single_boundary_iff by blast
  define m where "m = length row - k"
  have row': "row = replicate k CHR ''A'' @ replicate m CHR ''B''"
    using row by (simp add: m_def)
  have len: "length row = k + m"
    using k by (simp add: m_def)
  have b: "boundary row = int k - 1"
    by (subst row') (rule boundary_prefix)
  have u: "is_row_uniform row \<longleftrightarrow> k = 0 \<or> m = 0"
  proof (cases k)
    case 0
    with row' assms(2) show ?thesis
      by (cases m) (simp_all add: is_row_uniform_def list_all_iff)
  next
    case (Suc j)
    with row' show ?thesis
      by (cases m) (simp_all add: is_row_uniform_def list_all_iff)
  qed
  show ?thesis
    unfolding u b len by auto
qed

lemma uniform_boundary:
  assumes "is_row_uniform row" "row \<noteq> []"
  shows "boundary row = - 1 \<or> boundary row = int (length row) - 1"
proof (cases "CHR ''A'' \<in> set row")
  case False
  then show ?thesis by (simp add: boundary_no_A)
next
  case True
  from assms obtain c0 cs where row: "row = c0 # cs" and all: "\<forall>c\<in>set row. c = c0"
    by (cases row) (auto simp: is_row_uniform_def list_all_iff)
  from True all have "c0 = CHR ''A''" by auto
  with all assms(2) have "last row = CHR ''A''" by simp
  with assms(2) show ?thesis by (simp add: boundary_last)
qed

subsection \<open>Facts about integers and their decimal form\<close>

lemma of_char_digit_char: "d < 10 \<Longrightarrow> (of_char (digit_char d) :: nat) = 48 + d"
  by (simp add: digit_char_def)

lemma is_digit_digit_char: "d < 10 \<Longrightarrow> is_digit (digit_char d)"
  by (simp add: is_digit_def of_char_digit_char)

lemma digit_val_digit_char: "d < 10 \<Longrightarrow> digit_val (digit_char d) = Some d"
  by (simp add: digit_val_def of_char_digit_char)

lemma is_digit_val: "is_digit c \<Longrightarrow> \<exists>v. digit_val c = Some v"
  by (simp add: is_digit_def digit_val_def)

lemma is_digit_plain:
  assumes "is_digit c"
  shows "c \<noteq> CHR ''_''" "c \<noteq> CHR ''-''" "c \<noteq> CHR ''+''" "c \<noteq> CHR '':''"
    "c \<noteq> LF" "c \<noteq> CR" "\<not> is_space c" "\<not> is_int_space c"
  using assms by (auto simp: is_digit_def is_space_def is_int_space_def)

lemma minus_plain:
  "CHR ''-'' \<noteq> CHR '':''" "CHR ''-'' \<noteq> LF" "CHR ''-'' \<noteq> CR"
  "\<not> is_space CHR ''-''" "\<not> is_int_space CHR ''-''"
  by (simp_all add: is_space_def is_int_space_def)

lemma nat_digits_not_Nil: "nat_digits n \<noteq> []"
  by (subst nat_digits.simps) simp

lemma nat_digits_is_digit: "c \<in> set (nat_digits n) \<Longrightarrow> is_digit c"
proof (induction n rule: nat_digits.induct)
  case (1 n)
  show ?case
  proof (cases "n < 10")
    case True
    with "1.prems" show ?thesis
      by (subst (asm) nat_digits.simps) (simp add: is_digit_digit_char)
  next
    case False
    with "1.prems" have "c \<in> set (nat_digits (n div 10)) \<or> c = digit_char (n mod 10)"
      by (subst (asm) nat_digits.simps) auto
    with False "1.IH" show ?thesis
      by (auto simp: is_digit_digit_char)
  qed
qed

lemma digits_acc_snoc:
  assumes "\<forall>c\<in>set ds. is_digit c" "d < 10"
  shows "digits_acc acc (ds @ [digit_char d]) = map_option (\<lambda>v. 10 * v + d) (digits_acc acc ds)"
  using assms(1)
proof (induction ds arbitrary: acc)
  case Nil
  from assms(2) show ?case
    by (simp add: digit_val_digit_char is_digit_plain(1) [OF is_digit_digit_char])
next
  case (Cons c ds)
  then have c: "is_digit c" by simp
  then obtain v where v: "digit_val c = Some v" using is_digit_val by blast
  from Cons show ?case
    by (simp add: v is_digit_plain(1) [OF c])
qed

lemma py_digits_nat_digits: "py_digits (nat_digits n) = Some n"
proof (induction n rule: nat_digits.induct)
  case (1 n)
  show ?case
  proof (cases "n < 10")
    case True
    then show ?thesis
      by (subst nat_digits.simps) (simp add: py_digits_def digit_val_digit_char)
  next
    case False
    obtain c cs where cs: "nat_digits (n div 10) = c # cs"
      using nat_digits_not_Nil [of "n div 10"] by (cases "nat_digits (n div 10)") auto
    have dig: "\<forall>x\<in>set (c # cs). is_digit x"
      using nat_digits_is_digit [of _ "n div 10"] by (simp add: cs)
    then obtain v where v: "digit_val c = Some v" using is_digit_val by auto
    from "1.IH" False have "py_digits (c # cs) = Some (n div 10)" by (simp add: cs)
    then have acc: "digits_acc v cs = Some (n div 10)" by (simp add: py_digits_def v)
    have "py_digits (nat_digits n) = digits_acc v (cs @ [digit_char (n mod 10)])"
      using False by (subst nat_digits.simps) (simp add: cs py_digits_def v)
    also have "\<dots> = Some (10 * (n div 10) + n mod 10)"
      using dig by (subst digits_acc_snoc) (simp_all add: acc)
    finally show ?thesis by simp
  qed
qed

lemma str_int_chars: "c \<in> set (str_int i) \<Longrightarrow> c = CHR ''-'' \<or> is_digit c"
  by (auto simp: str_int_def dest: nat_digits_is_digit split: if_splits)

lemma str_int_plain:
  assumes "c \<in> set (str_int i)"
  shows "c \<noteq> CHR '':''" "c \<noteq> LF" "c \<noteq> CR" "\<not> is_space c" "\<not> is_int_space c"
  using str_int_chars [OF assms] is_digit_plain [of c] minus_plain by auto

lemma str_int_not_Nil: "str_int i \<noteq> []"
  by (simp add: str_int_def nat_digits_not_Nil)

lemma dropWhile_none: "\<forall>c\<in>set s. \<not> P c \<Longrightarrow> dropWhile P s = s"
  by (cases s) simp_all

lemma strip_int_plain: "\<forall>c\<in>set s. \<not> is_int_space c \<Longrightarrow> strip_int s = s"
  by (simp add: strip_int_def dropWhile_none)

lemma py_int_str_int: "py_int (str_int i) = Some i"
proof (cases "i < 0")
  case True
  have "strip_int (str_int i) = str_int i"
    by (rule strip_int_plain) (simp add: str_int_plain)
  with True show ?thesis
    by (simp add: py_int_def str_int_def py_digits_nat_digits)
next
  case False
  obtain c cs where cs: "nat_digits (nat i) = c # cs"
    using nat_digits_not_Nil [of "nat i"] by (cases "nat_digits (nat i)") auto
  have c: "is_digit c"
    using nat_digits_is_digit [of c "nat i"] by (simp add: cs)
  have "strip_int (str_int i) = str_int i"
    by (rule strip_int_plain) (simp add: str_int_plain)
  moreover have "py_digits (c # cs) = Some (nat i)"
    using py_digits_nat_digits [of "nat i"] by (simp add: cs)
  ultimately show ?thesis
    using False by (simp add: py_int_def str_int_def cs is_digit_plain [OF c])
qed

subsection \<open>Facts about the state file's format\<close>

lemma split_acc_word:
  "\<forall>c\<in>set w. \<not> is_space c \<Longrightarrow> split_acc cur (w @ rest) = split_acc (cur @ w) rest"
  by (induction w arbitrary: cur) simp_all

lemma split_acc_token:
  assumes "\<forall>c\<in>set w. \<not> is_space c" "w \<noteq> []"
  shows "split_acc [] (w @ CHR '' '' # rest) = w # split_acc [] rest"
    and "split_acc [] w = [w]"
proof -
  have sp: "is_space CHR '' ''" by (simp add: is_space_def)
  show "split_acc [] (w @ CHR '' '' # rest) = w # split_acc [] rest"
    using assms sp by (simp add: split_acc_word)
  have "split_acc [] (w @ []) = [w]"
    using assms by (simp only: split_acc_word) simp
  then show "split_acc [] w = [w]" by simp
qed

lemma split_sep_acc_word:
  "sep \<notin> set w \<Longrightarrow> split_sep_acc sep cur (w @ rest) = split_sep_acc sep (cur @ w) rest"
  by (induction w arbitrary: cur) auto

lemma split_sep_pair:
  assumes "sep \<notin> set k" "sep \<notin> set v"
  shows "split_sep sep (k @ sep # v) = [k, v]"
proof -
  have "split_sep_acc sep [] (v @ []) = split_sep_acc sep ([] @ v) []"
    using assms(2) by (rule split_sep_acc_word)
  then have "split_sep_acc sep [] v = [v]" by simp
  then show ?thesis
    using assms(1) by (simp add: split_sep_def split_sep_acc_word)
qed

lemma str_int_free:
  "CHR '':'' \<notin> set (str_int i)" "LF \<notin> set (str_int i)" "CR \<notin> set (str_int i)"
  using str_int_plain [of _ i] by blast+

lemma parse_part_str_int:
  "CHR '':'' \<notin> set key \<Longrightarrow> parse_part (key @ CHR '':'' # str_int n) = Inr (key, n)"
  by (simp add: parse_part_def split_sep_pair str_int_free py_int_str_int)

lemma token_no_space:
  "\<forall>c\<in>set key. \<not> is_space c \<Longrightarrow> \<not> is_space CHR '':''
   \<Longrightarrow> \<forall>c\<in>set (key @ CHR '':'' # str_int n). \<not> is_space c"
  by (auto dest: str_int_plain(4))

lemma colon_no_space: "\<not> is_space CHR '':''"
  by (simp add: is_space_def)

lemma split_counters_text:
  "split (counters_text a b d r) =
     [''WINS'', ''A:'' @ str_int a, ''B:'' @ str_int b, ''DAYS:'' @ str_int d,
      ''RECORD:'' @ str_int r]"
proof -
  have t: "\<forall>c\<in>set (key @ CHR '':'' # str_int n). \<not> is_space c"
    if "\<forall>c\<in>set key. \<not> is_space c" for key n
    using that colon_no_space by (rule token_no_space)
  have tA: "\<forall>c\<in>set (''A'' @ CHR '':'' # str_int a). \<not> is_space c"
    by (rule t) (simp add: is_space_def)
  have tB: "\<forall>c\<in>set (''B'' @ CHR '':'' # str_int b). \<not> is_space c"
    by (rule t) (simp add: is_space_def)
  have tD: "\<forall>c\<in>set (''DAYS'' @ CHR '':'' # str_int d). \<not> is_space c"
    by (rule t) (simp add: is_space_def)
  have tR: "\<forall>c\<in>set (''RECORD'' @ CHR '':'' # str_int r). \<not> is_space c"
    by (rule t) (simp add: is_space_def)
  have tW: "\<forall>c\<in>set ''WINS''. \<not> is_space c"
    by (simp add: is_space_def)
  have "counters_text a b d r =
        ''WINS'' @ CHR '' '' # ((''A'' @ CHR '':'' # str_int a) @ CHR '' '' #
          ((''B'' @ CHR '':'' # str_int b) @ CHR '' '' #
            ((''DAYS'' @ CHR '':'' # str_int d) @ CHR '' '' #
              (''RECORD'' @ CHR '':'' # str_int r))))"
    by (simp add: counters_text_def)
  then have "split (counters_text a b d r) =
      [''WINS'', ''A'' @ CHR '':'' # str_int a, ''B'' @ CHR '':'' # str_int b,
       ''DAYS'' @ CHR '':'' # str_int d, ''RECORD'' @ CHR '':'' # str_int r]"
    unfolding split_def
    by (simp only: split_acc_token [OF tW] split_acc_token [OF tA] split_acc_token [OF tB]
        split_acc_token [OF tD] split_acc_token [OF tR] append_is_Nil_conv list.simps
        simp_thms)
  then show ?thesis by simp
qed

lemma parse_counters_text:
  "parse_parts Map.empty (drop 1 (split (counters_text a b d r)))
   = Inr [''A'' \<mapsto> a, ''B'' \<mapsto> b, ''DAYS'' \<mapsto> d, ''RECORD'' \<mapsto> r]"
proof -
  have p: "parse_part (''A:'' @ str_int a) = Inr (''A'', a)"
    "parse_part (''B:'' @ str_int b) = Inr (''B'', b)"
    "parse_part (''DAYS:'' @ str_int d) = Inr (''DAYS'', d)"
    "parse_part (''RECORD:'' @ str_int r) = Inr (''RECORD'', r)"
    using parse_part_str_int [of "''A''" a] parse_part_str_int [of "''B''" b]
      parse_part_str_int [of "''DAYS''" d] parse_part_str_int [of "''RECORD''" r]
    by simp_all
  show ?thesis
    using p by (simp add: split_counters_text)
qed

lemma counters_text_plain: "LF \<notin> set (counters_text a b d r)" "CR \<notin> set (counters_text a b d r)"
  by (simp_all add: counters_text_def str_int_free)

lemma universal_newlines_plain: "CR \<notin> set s \<Longrightarrow> universal_newlines s = s"
  by (induction s) auto

lemma readlines_acc_line:
  "LF \<notin> set w \<Longrightarrow> readlines_acc cur (w @ LF # rest) = (cur @ w @ [LF]) # readlines_acc [] rest"
  by (induction w arbitrary: cur) auto

lemma rstrip_nl_line: "LF \<notin> set w \<Longrightarrow> rstrip_nl (w @ [LF]) = w"
proof -
  assume "LF \<notin> set w"
  then have "dropWhile (\<lambda>c. c = LF) (rev w) = rev w"
    by (intro dropWhile_none) auto
  then show ?thesis by (simp add: rstrip_nl_def)
qed

lemma lines_of_rows:
  "\<forall>row\<in>set rows. LF \<notin> set row
   \<Longrightarrow> map rstrip_nl (readlines_acc [] (concat (map (\<lambda>row. row @ [LF]) rows))) = rows"
proof (induction rows)
  case Nil
  show ?case by simp
next
  case (Cons row rows)
  then have row: "LF \<notin> set row" by simp
  from Cons show ?case
    by (simp add: readlines_acc_line [OF row] rstrip_nl_line [OF row])
qed

lemma file_lines_saved:
  assumes "LF \<notin> set line" "CR \<notin> set line"
    and "\<forall>row\<in>set rows. LF \<notin> set row \<and> CR \<notin> set row"
  shows "file_lines (line @ LF # concat (map (\<lambda>row. row @ [LF]) rows)) = line # rows"
proof -
  have "CR \<notin> set (line @ LF # concat (map (\<lambda>row. row @ [LF]) rows))"
    using assms by auto
  then have "universal_newlines (line @ LF # concat (map (\<lambda>row. row @ [LF]) rows))
             = line @ LF # concat (map (\<lambda>row. row @ [LF]) rows)"
    by (rule universal_newlines_plain)
  then have "file_lines (line @ LF # concat (map (\<lambda>row. row @ [LF]) rows))
             = map rstrip_nl (readlines_acc [] (line @ LF # concat (map (\<lambda>row. row @ [LF]) rows)))"
    by (simp only: file_lines_def readlines_def)
  also have "\<dots> = line # rows"
    using assms by (simp add: readlines_acc_line rstrip_nl_line lines_of_rows)
  finally show ?thesis .
qed

subsection \<open>Saving, then loading\<close>

lemma wins_line_counters:
  assumes "wins ''A'' = Some a" "wins ''B'' = Some b" "wins ''DAYS'' = Some d"
    "wins ''RECORD'' = Some r"
  shows "wins_line wins = Inr (counters_text a b d r @ [LF])"
  using assms by (simp add: wins_line_def lookup_def counters_text_def)

lemma board_rows_ok:
  assumes "length board = BOARD_ROWS" "\<forall>row\<in>set board. length row = BOARD_COLS"
  shows "take BOARD_ROWS board = board"
    and "\<not> list_ex (\<lambda>line. length line \<noteq> BOARD_COLS) board"
  using assms by (simp_all add: list_ex_iff)

lemma read_state_saved:
  assumes "length board = BOARD_ROWS"
    and "\<forall>row\<in>set board. length row = BOARD_COLS \<and> LF \<notin> set row \<and> CR \<notin> set row"
  shows "read_state (counters_text a b d r @ LF # concat (map (\<lambda>row. row @ [LF]) board))
         = Inr ([''A'' \<mapsto> a, ''B'' \<mapsto> b, ''DAYS'' \<mapsto> d, ''RECORD'' \<mapsto> r], board)"
proof -
  have lines: "file_lines (counters_text a b d r @ LF # concat (map (\<lambda>row. row @ [LF]) board))
               = counters_text a b d r # board"
    using assms(2) by (intro file_lines_saved counters_text_plain) simp
  have rows: "take BOARD_ROWS board = board"
    "\<not> list_ex (\<lambda>line. length line \<noteq> BOARD_COLS) board"
    using assms by (simp_all add: board_rows_ok)
  have parts: "parse_parts Map.empty (drop (Suc 0) (split (counters_text a b d r)))
        = Inr [''A'' \<mapsto> a, ''B'' \<mapsto> b, ''DAYS'' \<mapsto> d, ''RECORD'' \<mapsto> r]"
    using parse_counters_text [of a b d r] by simp
  show ?thesis
    unfolding read_state_def lines Let_def
    by (simp add: assms(1) rows parts)
qed

lemma four_counters:
  assumes "dom wins = {''A'', ''B'', ''DAYS'', ''RECORD''}"
  obtains a b d r where "wins = [''A'' \<mapsto> a, ''B'' \<mapsto> b, ''DAYS'' \<mapsto> d, ''RECORD'' \<mapsto> r]"
proof -
  from assms obtain a b d r where v: "wins ''A'' = Some a" "wins ''B'' = Some b"
    "wins ''DAYS'' = Some d" "wins ''RECORD'' = Some r"
    by (metis domD insertCI)
  have "wins k = [''A'' \<mapsto> a, ''B'' \<mapsto> b, ''DAYS'' \<mapsto> d, ''RECORD'' \<mapsto> r] k" for k
  proof (cases "k \<in> dom wins")
    case True
    with assms v show ?thesis by auto
  next
    case False
    then have "wins k = None" by blast
    moreover from False assms have "k \<noteq> ''A''" "k \<noteq> ''B''" "k \<noteq> ''DAYS''" "k \<noteq> ''RECORD''"
      by auto
    ultimately show ?thesis by simp
  qed
  then have "wins = [''A'' \<mapsto> a, ''B'' \<mapsto> b, ''DAYS'' \<mapsto> d, ''RECORD'' \<mapsto> r]"
    by (rule ext)
  then show thesis by (rule that)
qed

lemma save_load_counters:
  assumes "wins ''A'' = Some a" "wins ''B'' = Some b" "wins ''DAYS'' = Some d"
    "wins ''RECORD'' = Some r"
    and "length board = BOARD_ROWS"
    and "\<forall>row\<in>set board. length row = BOARD_COLS \<and> LF \<notin> set row \<and> CR \<notin> set row"
  shows "fst (save_state wins board fs) = Inr ()"
    and "state_file (snd (save_state wins board fs))
         = Some (counters_text a b d r @ LF # concat (map (\<lambda>row. row @ [LF]) board))"
    and "output_file (snd (save_state wins board fs)) = output_file fs"
    and "load_state (snd (save_state wins board fs))
         = ([''A'' \<mapsto> a, ''B'' \<mapsto> b, ''DAYS'' \<mapsto> d, ''RECORD'' \<mapsto> r], board)"
proof -
  have line: "wins_line wins = Inr (counters_text a b d r @ [LF])"
    using assms(1-4) by (rule wins_line_counters)
  show "fst (save_state wins board fs) = Inr ()"
    by (simp add: save_state_def line)
  show sf: "state_file (snd (save_state wins board fs))
         = Some (counters_text a b d r @ LF # concat (map (\<lambda>row. row @ [LF]) board))"
    by (simp add: save_state_def line)
  show "output_file (snd (save_state wins board fs)) = output_file fs"
    by (simp add: save_state_def line)
  show "load_state (snd (save_state wins board fs))
         = ([''A'' \<mapsto> a, ''B'' \<mapsto> b, ''DAYS'' \<mapsto> d, ''RECORD'' \<mapsto> r], board)"
    unfolding load_state_def sf
    by (simp add: read_state_saved [OF assms(5,6)])
qed

lemma create_initial_board_rows:
  "create_initial_board = [''AAABB'', ''AAABB'', ''AAABB'', ''AABBB'', ''AABBB'', ''AABBB'']"
  by (simp add: create_initial_board_def BOARD_ROWS_def BOARD_COLS_def upt_rec)
     (simp add: numeral_2_eq_2 numeral_3_eq_3)

lemma read_state_lines:
  assumes "LF \<notin> set line" "CR \<notin> set line"
    and "\<forall>row\<in>set rows. LF \<notin> set row \<and> CR \<notin> set row"
    and "BOARD_ROWS \<le> length rows"
  shows "read_state (line @ LF # concat (map (\<lambda>row. row @ [LF]) rows)) =
     (case parse_parts Map.empty (drop 1 (split line)) of
        Inl e \<Rightarrow> Inl e
      | Inr wins \<Rightarrow>
          if list_ex (\<lambda>line. length line \<noteq> BOARD_COLS) (take BOARD_ROWS rows)
          then Inr default_state
          else Inr ((if ''RECORD'' \<in> dom (if ''DAYS'' \<in> dom wins then wins else wins(''DAYS'' \<mapsto> 0))
                     then (if ''DAYS'' \<in> dom wins then wins else wins(''DAYS'' \<mapsto> 0))
                     else (if ''DAYS'' \<in> dom wins then wins else wins(''DAYS'' \<mapsto> 0))(''RECORD'' \<mapsto> 0)),
                    take BOARD_ROWS rows))"
proof -
  have lines: "file_lines (line @ LF # concat (map (\<lambda>row. row @ [LF]) rows)) = line # rows"
    using assms(1-3) by (rule file_lines_saved)
  show ?thesis
    unfolding read_state_def lines Let_def using assms(4)
    by (simp split: sum.splits)
qed

subsection \<open>What a loaded state looks like, and rewriting a row\<close>

lemma load_state_output: "load_state (fs\<lparr>output_file := x\<rparr>) = load_state fs"
  by (simp add: load_state_def)

lemma grid_shape_initial: "grid_shape create_initial_board"
  by (simp add: grid_shape_def create_initial_board_rows BOARD_ROWS_def BOARD_COLS_def)

lemma read_state_shape:
  assumes "read_state content = Inr (wins, board)"
  shows "grid_shape board" "''DAYS'' \<in> dom wins" "''RECORD'' \<in> dom wins"
proof -
  let ?lines = "file_lines content"
  have "board = create_initial_board
        \<or> (\<not> length ?lines < 1 + BOARD_ROWS \<and> board = take BOARD_ROWS (drop 1 ?lines)
           \<and> \<not> list_ex (\<lambda>line. length line \<noteq> BOARD_COLS) board)"
    using assms
    by (auto simp: read_state_def Let_def default_state_def split: sum.splits if_splits)
  then show "grid_shape board"
  proof
    assume "board = create_initial_board"
    then show ?thesis by (simp add: grid_shape_initial)
  next
    assume "\<not> length ?lines < 1 + BOARD_ROWS \<and> board = take BOARD_ROWS (drop 1 ?lines)
           \<and> \<not> list_ex (\<lambda>line. length line \<noteq> BOARD_COLS) board"
    then show ?thesis
      by (auto simp: grid_shape_def list_ex_iff list_all_iff)
  qed
  show "''DAYS'' \<in> dom wins"
    using assms
    by (auto simp: read_state_def Let_def default_state_def split: sum.splits if_splits)
  show "''RECORD'' \<in> dom wins"
    using assms
    by (auto simp: read_state_def Let_def default_state_def split: sum.splits if_splits)
qed

lemma load_state_shape:
  assumes "load_state fs = (wins, board)"
  shows "grid_shape board" "''DAYS'' \<in> dom wins" "''RECORD'' \<in> dom wins"
proof -
  have "load_state fs = default_state \<or> (\<exists>content. read_state content = Inr (wins, board))"
    using assms by (auto simp: load_state_def split: option.splits sum.splits)
  then have "grid_shape board \<and> ''DAYS'' \<in> dom wins \<and> ''RECORD'' \<in> dom wins"
  proof
    assume "load_state fs = default_state"
    with assms have "wins = fst default_state" "board = create_initial_board"
      by (simp_all add: default_state_def)
    then show ?thesis by (simp add: grid_shape_initial default_state_def)
  next
    assume "\<exists>content. read_state content = Inr (wins, board)"
    then show ?thesis using read_state_shape by blast
  qed
  then show "grid_shape board" "''DAYS'' \<in> dom wins" "''RECORD'' \<in> dom wins"
    by simp_all
qed

lemma generate_ascii_board_ok:
  assumes "board \<noteq> []" "wins ''A'' = Some a" "wins ''B'' = Some b" "wins ''DAYS'' = Some d"
    "wins ''RECORD'' = Some r"
  shows "\<exists>out. generate_ascii_board board wins = Inr out"
  using assms by (cases board) (simp_all add: generate_ascii_board_def lookup_def Let_def)

lemma rewrite_row_ok:
  assumes "length row = BOARD_COLS"
  shows "rewrite_row nb row
         = Inr (map (\<lambda>i. if int i \<le> nb then CHR ''A'' else CHR ''B'') [0 ..< BOARD_COLS])"
proof -
  from assms obtain c0 c1 c2 c3 c4 where "row = [c0, c1, c2, c3, c4]"
    by (auto simp: BOARD_COLS_def length_Suc_conv eval_nat_numeral)
  then show ?thesis
    by (simp add: rewrite_row_def BOARD_COLS_def upt_rec)
qed

lemma new_row_prefix:
  assumes "- 1 \<le> nb" "nb \<le> int BOARD_COLS - 1"
  shows "map (\<lambda>i. if int i \<le> nb then CHR ''A'' else CHR ''B'') [0 ..< BOARD_COLS]
         = replicate (nat (nb + 1)) CHR ''A'' @ replicate (BOARD_COLS - nat (nb + 1)) CHR ''B''"
proof -
  from assms have "nb = - 1 \<or> nb = 0 \<or> nb = 1 \<or> nb = 2 \<or> nb = 3 \<or> nb = 4"
    by (auto simp: BOARD_COLS_def)
  then show ?thesis
    by (elim disjE) (simp_all add: BOARD_COLS_def upt_rec eval_nat_numeral)
qed

subsection \<open>The battle step in its two branches\<close>

lemma grid_shape_row:
  assumes "grid_shape board" "row_index < BOARD_ROWS"
  shows "board \<noteq> []" "\<not> length board \<le> row_index" "length (board ! row_index) = BOARD_COLS"
  using assms by (auto simp: grid_shape_def list_all_length BOARD_ROWS_def)

lemma generate_ascii_board_keys:
  assumes "board \<noteq> []" "''A'' \<in> dom wins" "''B'' \<in> dom wins" "''DAYS'' \<in> dom wins"
    "''RECORD'' \<in> dom wins"
  shows "\<exists>out. generate_ascii_board board wins = Inr out"
proof -
  from assms(2-5) obtain a b d r where "wins ''A'' = Some a" "wins ''B'' = Some b"
    "wins ''DAYS'' = Some d" "wins ''RECORD'' = Some r"
    by blast
  with assms(1) show ?thesis by (rule generate_ascii_board_ok)
qed

lemma battle_step_win:
  assumes "grid_shape board" "row_index < BOARD_ROWS"
    and "wins ''A'' = Some a" "wins ''B'' = Some b" "wins ''DAYS'' = Some d"
    "wins ''RECORD'' = Some r"
    and "boundary (board ! row_index) = int BOARD_COLS - 1 \<or> boundary (board ! row_index) = - 1"
  shows "\<exists>rest. battle_step wins board row_index heads =
           Inr ((if boundary (board ! row_index) = int BOARD_COLS - 1
                 then wins(''A'' \<mapsto> a + 1, ''DAYS'' \<mapsto> 0)
                 else wins(''B'' \<mapsto> b + 1, ''DAYS'' \<mapsto> 0)),
                create_initial_board,
                ustr (''Faction ''
                      @ (if boundary (board ! row_index) = int BOARD_COLS - 1 then ''A'' else ''B'')
                      @ '' wins on row '' @ str_int (int row_index + 1) @ ''!'') @ rest)"
proof -
  obtain final_state where f: "generate_ascii_board board wins = Inr final_state"
    using generate_ascii_board_ok [OF grid_shape_row(1) [OF assms(1,2)] assms(3-6)] by blast
  have ne: "create_initial_board \<noteq> []"
    by (simp add: create_initial_board_rows)
  obtain ra where ra: "generate_ascii_board create_initial_board
                         (wins(''A'' \<mapsto> a + 1, ''DAYS'' \<mapsto> 0)) = Inr ra"
    using generate_ascii_board_keys [OF ne, of "wins(''A'' \<mapsto> a + 1, ''DAYS'' \<mapsto> 0)"] assms(3-6)
    by auto
  obtain rb where rb: "generate_ascii_board create_initial_board
                         (wins(''B'' \<mapsto> b + 1, ''DAYS'' \<mapsto> 0)) = Inr rb"
    using generate_ascii_board_keys [OF ne, of "wins(''B'' \<mapsto> b + 1, ''DAYS'' \<mapsto> 0)"] assms(3-6)
    by auto
  show ?thesis
  proof (cases "boundary (board ! row_index) = int BOARD_COLS - 1")
    case True
    then show ?thesis
      using grid_shape_row(2) [OF assms(1,2)]
      by (simp add: battle_step_def Let_def f ra lookup_def assms(3))
  next
    case False
    with assms(7) have "boundary (board ! row_index) = - 1" by simp
    with False show ?thesis
      using grid_shape_row(2) [OF assms(1,2)]
      by (simp add: battle_step_def Let_def f rb lookup_def assms(4))
  qed
qed

lemma advance_days_ok:
  assumes "wins ''DAYS'' = Some d" "wins ''RECORD'' = Some r"
  shows "advance_days wins =
           Inr (if r < d + 1 then wins(''DAYS'' \<mapsto> d + 1, ''RECORD'' \<mapsto> d + 1)
                else wins(''DAYS'' \<mapsto> d + 1))"
  using assms by (simp add: advance_days_def lookup_def Let_def)

lemma battle_step_move:
  assumes "grid_shape board" "row_index < BOARD_ROWS"
    and "wins ''A'' = Some a" "wins ''B'' = Some b" "wins ''DAYS'' = Some d"
    "wins ''RECORD'' = Some r"
    and "boundary (board ! row_index) \<noteq> int BOARD_COLS - 1" "boundary (board ! row_index) \<noteq> - 1"
  shows "\<exists>out. battle_step wins board row_index heads =
           Inr ((if r < d + 1 then wins(''DAYS'' \<mapsto> d + 1, ''RECORD'' \<mapsto> d + 1)
                 else wins(''DAYS'' \<mapsto> d + 1)),
                board[row_index :=
                        map (\<lambda>i. if int i \<le> move_boundary (boundary (board ! row_index)) heads
                                 then CHR ''A'' else CHR ''B'') [0 ..< BOARD_COLS]],
                out)"
proof -
  let ?w = "if r < d + 1 then wins(''DAYS'' \<mapsto> d + 1, ''RECORD'' \<mapsto> d + 1)
            else wins(''DAYS'' \<mapsto> d + 1)"
  let ?row = "map (\<lambda>i. if int i \<le> move_boundary (boundary (board ! row_index)) heads
                        then CHR ''A'' else CHR ''B'') [0 ..< BOARD_COLS]"
  have adv: "advance_days wins = Inr ?w"
    using assms(5,6) by (rule advance_days_ok)
  have rw: "rewrite_row (move_boundary (boundary (board ! row_index)) heads) (board ! row_index)
            = Inr ?row"
    using grid_shape_row(3) [OF assms(1,2)] by (rule rewrite_row_ok)
  have ne: "board[row_index := ?row] \<noteq> []"
    using grid_shape_row(1) [OF assms(1,2)] by simp
  have "\<exists>out. generate_ascii_board (board[row_index := ?row]) ?w = Inr out"
    using assms(3-6) by (intro generate_ascii_board_keys [OF ne]) auto
  then obtain out where out: "generate_ascii_board (board[row_index := ?row]) ?w = Inr out"
    by blast
  have "battle_step wins board row_index heads = Inr (?w, board[row_index := ?row], out)"
    using grid_shape_row(2) [OF assms(1,2)] assms(7,8)
    by (simp only: battle_step_def Let_def adv rw out if_False sum.case simp_thms)
  then show ?thesis by blast
qed

subsection \<open>Falling back to the default state, or not\<close>

lemma unlines_Cons: "unlines (line # rows) = line @ LF # concat (map (\<lambda>row. row @ [LF]) rows)"
  by (simp add: unlines_def)

lemma file_lines_unlines:
  "\<forall>line\<in>set lines. LF \<notin> set line \<and> CR \<notin> set line \<Longrightarrow> file_lines (unlines lines) = lines"
proof (cases lines)
  case Nil
  then show ?thesis by (simp add: unlines_def file_lines_def readlines_def)
next
  case (Cons line rows)
  assume "\<forall>line\<in>set lines. LF \<notin> set line \<and> CR \<notin> set line"
  with Cons show ?thesis
    by (simp only: unlines_Cons) (rule file_lines_saved, simp_all)
qed

lemma parse_parts_fails:
  "\<exists>part\<in>set parts. \<not> parses part \<Longrightarrow> \<exists>e. parse_parts wins parts = Inl e"
proof (induction parts arbitrary: wins)
  case Nil
  then show ?case by simp
next
  case (Cons part parts)
  show ?case
  proof (cases "parse_part part")
    case (Inl e)
    then show ?thesis by simp
  next
    case (Inr kv)
    then have "parses part" by (simp add: parses_def)
    with Cons.prems have "\<exists>part\<in>set parts. \<not> parses part" by simp
    then obtain e where "parse_parts (wins(fst kv \<mapsto> snd kv)) parts = Inl e"
      using Cons.IH by blast
    with Inr show ?thesis by (cases kv) simp
  qed
qed

lemma parse_parts_succeeds:
  "\<forall>part\<in>set parts. parses part \<Longrightarrow> \<exists>w. parse_parts wins parts = Inr w"
proof (induction parts arbitrary: wins)
  case Nil
  then show ?case by simp
next
  case (Cons part parts)
  then have "parses part" by simp
  then obtain key n where kv: "parse_part part = Inr (key, n)"
    by (cases "parse_part part") (auto simp: parses_def)
  from Cons.prems have "\<forall>part\<in>set parts. parses part" by simp
  then obtain w where "parse_parts (wins(key \<mapsto> n)) parts = Inr w"
    using Cons.IH by blast
  with kv show ?case by simp
qed

lemma load_state_default:
  assumes "state_file fs = Some content"
    and "length (file_lines content) < 1 + BOARD_ROWS
         \<or> (\<exists>line\<in>set (take BOARD_ROWS (drop 1 (file_lines content))). length line \<noteq> BOARD_COLS)
         \<or> (\<exists>part\<in>set (drop 1 (split (file_lines content ! 0))). \<not> parses part)"
  shows "load_state fs = default_state"
proof (cases "length (file_lines content) < 1 + BOARD_ROWS")
  case True
  then have "read_state content = Inr default_state"
    by (simp add: read_state_def)
  with assms(1) show ?thesis by (simp add: load_state_def)
next
  case False
  show ?thesis
  proof (cases "parse_parts Map.empty (drop 1 (split (file_lines content ! 0)))")
    case (Inl e)
    with False have "read_state content = Inl e"
      by (simp add: read_state_def Let_def)
    with assms(1) show ?thesis by (simp add: load_state_def)
  next
    case (Inr w)
    then have "\<not> (\<exists>part\<in>set (drop 1 (split (file_lines content ! 0))). \<not> parses part)"
      using parse_parts_fails [of "drop 1 (split (file_lines content ! 0))" Map.empty] by auto
    with assms(2) False
    have "list_ex (\<lambda>line. length line \<noteq> BOARD_COLS) (take BOARD_ROWS (drop 1 (file_lines content)))"
      unfolding list_ex_iff by blast
    with False Inr have "read_state content = Inr default_state"
      by (simp add: read_state_def Let_def)
    with assms(1) show ?thesis by (simp add: load_state_def)
  qed
qed

lemma load_state_grid:
  assumes "state_file fs = Some content"
    and "1 + BOARD_ROWS \<le> length (file_lines content)"
    and "\<forall>part\<in>set (drop 1 (split (file_lines content ! 0))). parses part"
    and "\<forall>line\<in>set (take BOARD_ROWS (drop 1 (file_lines content))). length line = BOARD_COLS"
  shows "\<exists>wins. read_state content = Inr (wins, take BOARD_ROWS (drop 1 (file_lines content)))
                \<and> load_state fs = (wins, take BOARD_ROWS (drop 1 (file_lines content)))"
proof -
  obtain w where w: "parse_parts Map.empty (drop 1 (split (file_lines content ! 0))) = Inr w"
    using parse_parts_succeeds [OF assms(3)] by blast
  have "\<not> list_ex (\<lambda>line. length line \<noteq> BOARD_COLS) (take BOARD_ROWS (drop 1 (file_lines content)))"
    using assms(4) unfolding list_ex_iff by blast
  with assms(2) w have "\<exists>wins. read_state content = Inr (wins, take BOARD_ROWS (drop 1 (file_lines content)))"
    by (simp add: read_state_def Let_def)
  then obtain wins where "read_state content = Inr (wins, take BOARD_ROWS (drop 1 (file_lines content)))"
    by blast
  with assms(1) show ?thesis by (simp add: load_state_def)
qed

subsection \<open>The example files, loaded\<close>

lemma example_lines:
  "file_lines (unlines won_lines) = won_lines"
  "file_lines (unlines long_lines) = long_lines"
  "file_lines (unlines bad_token_lines) = bad_token_lines"
  "file_lines (unlines foreign_lines) = foreign_lines"
  by (rule file_lines_unlines,
      simp add: won_lines_def long_lines_def bad_token_lines_def foreign_lines_def)+

lemma parse_small:
  "parse_part ''A:0'' = Inr (''A'', 0)" "parse_part ''A:1'' = Inr (''A'', 1)"
  "parse_part ''B:0'' = Inr (''B'', 0)" "parse_part ''B:2'' = Inr (''B'', 2)"
  "parse_part ''DAYS:0'' = Inr (''DAYS'', 0)" "parse_part ''DAYS:2'' = Inr (''DAYS'', 2)"
  "parse_part ''DAYS:3'' = Inr (''DAYS'', 3)"
  "parse_part ''RECORD:0'' = Inr (''RECORD'', 0)" "parse_part ''RECORD:2'' = Inr (''RECORD'', 2)"
  "parse_part ''RECORD:4'' = Inr (''RECORD'', 4)"
  "parse_part ''A:x'' = Inl ValueError"
  by (simp_all add: parse_part_def split_sep_def py_int_def strip_int_def is_int_space_def
      py_digits_def digit_val_def)

lemma split_small:
  "split ''WINS A:0 B:0 DAYS:2 RECORD:2'' = [''WINS'', ''A:0'', ''B:0'', ''DAYS:2'', ''RECORD:2'']"
  "split ''WINS A:1 B:0 DAYS:0 RECORD:0'' = [''WINS'', ''A:1'', ''B:0'', ''DAYS:0'', ''RECORD:0'']"
  "split ''WINS A:x B:0 DAYS:0 RECORD:0'' = [''WINS'', ''A:x'', ''B:0'', ''DAYS:0'', ''RECORD:0'']"
  "split ''WINS A:1 B:2 DAYS:3 RECORD:4'' = [''WINS'', ''A:1'', ''B:2'', ''DAYS:3'', ''RECORD:4'']"
  by (simp_all add: split_def is_space_def)

lemma load_state_long:
  "load_state (state_of_lines long_lines)
   = ([''A'' \<mapsto> 1, ''B'' \<mapsto> 0, ''DAYS'' \<mapsto> 0, ''RECORD'' \<mapsto> 0], create_initial_board)"
proof -
  have "read_state (unlines long_lines)
        = Inr ([''A'' \<mapsto> 1, ''B'' \<mapsto> 0, ''DAYS'' \<mapsto> 0, ''RECORD'' \<mapsto> 0], create_initial_board)"
    unfolding read_state_def example_lines Let_def
    by (simp add: long_lines_def split_small parse_small BOARD_ROWS_def BOARD_COLS_def
        create_initial_board_rows)
  then show ?thesis by (simp add: load_state_def state_of_lines_def)
qed

lemma load_state_won:
  "load_state (state_of_lines won_lines)
   = ([''A'' \<mapsto> 0, ''B'' \<mapsto> 0, ''DAYS'' \<mapsto> 2, ''RECORD'' \<mapsto> 2],
      [''AAAAA'', ''AAABB'', ''AAABB'', ''AABBB'', ''AABBB'', ''AABBB''])"
proof -
  have "read_state (unlines won_lines)
        = Inr ([''A'' \<mapsto> 0, ''B'' \<mapsto> 0, ''DAYS'' \<mapsto> 2, ''RECORD'' \<mapsto> 2],
               [''AAAAA'', ''AAABB'', ''AAABB'', ''AABBB'', ''AABBB'', ''AABBB''])"
    unfolding read_state_def example_lines Let_def
    by (simp add: won_lines_def split_small parse_small BOARD_ROWS_def BOARD_COLS_def)
  then show ?thesis by (simp add: load_state_def state_of_lines_def)
qed

lemma load_state_foreign:
  "snd (load_state (state_of_lines foreign_lines))
   = [''XYZZY'', ''AAABB'', ''AAABB'', ''AABBB'', ''AABBB'', ''AABBB'']"
proof -
  have "read_state (unlines foreign_lines)
        = Inr ([''A'' \<mapsto> 1, ''B'' \<mapsto> 2, ''DAYS'' \<mapsto> 3, ''RECORD'' \<mapsto> 4],
               [''XYZZY'', ''AAABB'', ''AAABB'', ''AABBB'', ''AABBB'', ''AABBB''])"
    unfolding read_state_def example_lines Let_def
    by (simp add: foreign_lines_def split_small parse_small BOARD_ROWS_def BOARD_COLS_def)
  then show ?thesis by (simp add: load_state_def state_of_lines_def)
qed

subsection \<open>One invocation: load, step, save\<close>

lemma save_state_keys:
  assumes "''A'' \<in> dom wins" "''B'' \<in> dom wins" "''DAYS'' \<in> dom wins" "''RECORD'' \<in> dom wins"
  shows "fst (save_state wins board fs) = Inr ()"
proof -
  from assms obtain a b d r where "wins ''A'' = Some a" "wins ''B'' = Some b"
    "wins ''DAYS'' = Some d" "wins ''RECORD'' = Some r"
    by blast
  then have "wins_line wins = Inr (counters_text a b d r @ [LF])"
    by (rule wins_line_counters)
  then show ?thesis by (simp add: save_state_def)
qed

lemma simulate_battle_step:
  assumes "load_state fs = (wins, board)"
    and "battle_step wins board row_index heads = Inr (wins', board', out)"
    and "fst (save_state wins' board' fs) = Inr ()"
  shows "simulate_battle fs row_index heads
         = (Inr out, (snd (save_state wins' board' fs))\<lparr>output_file := Some out\<rparr>)"
proof -
  obtain fs' where s: "save_state wins' board' fs = (Inr (), fs')"
    using assms(3) by (cases "save_state wins' board' fs") auto
  show ?thesis
    by (simp add: simulate_battle_def assms(1,2) s)
qed

lemma simulate_battle_raises:
  assumes "load_state fs = (wins, board)"
    and "battle_step wins board row_index heads = Inl e"
  shows "simulate_battle fs row_index heads = (Inl e, fs)"
  by (simp add: simulate_battle_def assms)

lemma battle_step_keys:
  assumes "battle_step wins board row_index heads = Inr (wins', board', out)"
  shows "''A'' \<in> dom wins'" "''B'' \<in> dom wins'" "''DAYS'' \<in> dom wins'" "''RECORD'' \<in> dom wins'"
proof -
  have "generate_ascii_board board' wins' \<noteq> Inl KeyError \<and> (\<exists>res. generate_ascii_board board' wins' = Inr res)"
    using assms
    by (auto simp: battle_step_def Let_def split: if_splits sum.splits)
  then obtain res where "generate_ascii_board board' wins' = Inr res" by blast
  then have "''A'' \<in> dom wins' \<and> ''B'' \<in> dom wins' \<and> ''DAYS'' \<in> dom wins' \<and> ''RECORD'' \<in> dom wins'"
    by (auto simp: generate_ascii_board_def lookup_def Let_def
        split: list.splits option.splits sum.splits)
  then show "''A'' \<in> dom wins'" "''B'' \<in> dom wins'" "''DAYS'' \<in> dom wins'" "''RECORD'' \<in> dom wins'"
    by simp_all
qed

lemma simulate_battle_cases:
  assumes "load_state fs = (wins, board)"
  shows "(\<exists>e. battle_step wins board row_index heads = Inl e
              \<and> simulate_battle fs row_index heads = (Inl e, fs))
       \<or> (\<exists>wins' board' out. battle_step wins board row_index heads = Inr (wins', board', out)
              \<and> fst (save_state wins' board' fs) = Inr ()
              \<and> simulate_battle fs row_index heads
                  = (Inr out, (snd (save_state wins' board' fs))\<lparr>output_file := Some out\<rparr>))"
proof (cases "battle_step wins board row_index heads")
  case (Inl e)
  with assms show ?thesis by (simp add: simulate_battle_raises)
next
  case (Inr res)
  obtain wins' board' out where res: "res = (wins', board', out)" by (cases res)
  have s: "fst (save_state wins' board' fs) = Inr ()"
    using battle_step_keys [OF Inr [unfolded res]] by (rule save_state_keys)
  from simulate_battle_step [OF assms Inr [unfolded res] s] Inr res s
  show ?thesis by blast
qed

lemma simulate_battle_reload:
  assumes "load_state fs = (wins, board)"
    and "battle_step wins board row_index heads = Inr (wins', board', out)"
    and "wins' ''A'' = Some a" "wins' ''B'' = Some b" "wins' ''DAYS'' = Some d"
    "wins' ''RECORD'' = Some r"
    and "grid_shape board'" "no_newline board'"
  shows "fst (simulate_battle fs row_index heads) = Inr out"
    and "load_state (snd (simulate_battle fs row_index heads))
         = ([''A'' \<mapsto> a, ''B'' \<mapsto> b, ''DAYS'' \<mapsto> d, ''RECORD'' \<mapsto> r], board')"
proof -
  have len: "length board' = BOARD_ROWS"
    using assms(7) by (simp add: grid_shape_def)
  have rows: "\<forall>row\<in>set board'. length row = BOARD_COLS \<and> LF \<notin> set row \<and> CR \<notin> set row"
    using assms(7,8) by (simp add: grid_shape_def no_newline_def list_all_iff)
  have s: "fst (save_state wins' board' fs) = Inr ()"
    using assms(3-6) len rows by (rule save_load_counters(1))
  have sim: "simulate_battle fs row_index heads
             = (Inr out, (snd (save_state wins' board' fs))\<lparr>output_file := Some out\<rparr>)"
    using assms(1,2) s by (rule simulate_battle_step)
  show "fst (simulate_battle fs row_index heads) = Inr out"
    by (simp add: sim)
  have "load_state (snd (save_state wins' board' fs))
        = ([''A'' \<mapsto> a, ''B'' \<mapsto> b, ''DAYS'' \<mapsto> d, ''RECORD'' \<mapsto> r], board')"
    using assms(3-6) len rows by (rule save_load_counters(4))
  then show "load_state (snd (simulate_battle fs row_index heads))
         = ([''A'' \<mapsto> a, ''B'' \<mapsto> b, ''DAYS'' \<mapsto> d, ''RECORD'' \<mapsto> r], board')"
    by (simp add: sim load_state_output)
qed

lemma no_newline_initial: "no_newline create_initial_board"
  by (simp add: no_newline_def create_initial_board_rows)

subsection \<open>An invocation that finds a win\<close>

lemma boundary_small:
  "boundary ''AAAAA'' = 4" "boundary ''AAABB'' = 2" "boundary ''AAAAB'' = 3"
  "boundary ''AABBB'' = 1" "boundary ''BBBBB'' = - 1"
  by (simp_all add: boundary_def a_indices_def enumerate_eq_zip upt_rec)

lemma simulate_battle_win:
  assumes "load_state fs = (wins, board)" and "row_index < BOARD_ROWS"
    and "wins ''A'' = Some a" and "wins ''B'' = Some b" and "wins ''RECORD'' = Some r"
    and "boundary (board ! row_index) = int BOARD_COLS - 1 \<or> boundary (board ! row_index) = - 1"
    and "a_wins = (boundary (board ! row_index) = int BOARD_COLS - 1)"
    and "wins' = wins((if a_wins then ''A'' else ''B'') \<mapsto> (if a_wins then a else b) + 1, ''DAYS'' \<mapsto> 0)"
    and "message = ustr (''Faction '' @ (if a_wins then ''A'' else ''B'') @ '' wins on row ''
                         @ str_int (int row_index + 1) @ ''!'')"
  shows "\<exists>rest. battle_step wins board row_index heads
                   = Inr (wins', create_initial_board, message @ rest)
               \<and> simulate_battle fs row_index heads
                   = (Inr (message @ rest),
                      (snd (save_state wins' create_initial_board fs))
                        \<lparr>output_file := Some (message @ rest)\<rparr>)"
    and "fst (save_state wins' create_initial_board fs) = Inr ()"
    and "load_state (snd (simulate_battle fs row_index heads))
         = ([''A'' \<mapsto> (if a_wins then a + 1 else a), ''B'' \<mapsto> (if a_wins then b else b + 1),
             ''DAYS'' \<mapsto> 0, ''RECORD'' \<mapsto> r], create_initial_board)"
proof -
  note shape = load_state_shape [OF assms(1)]
  from shape(2) obtain d where d: "wins ''DAYS'' = Some d"
    by blast
  have w: "(if boundary (board ! row_index) = int BOARD_COLS - 1
            then wins(''A'' \<mapsto> a + 1, ''DAYS'' \<mapsto> 0)
            else wins(''B'' \<mapsto> b + 1, ''DAYS'' \<mapsto> 0)) = wins'"
    unfolding assms(8) assms(7) by simp
  obtain rest where step:
    "battle_step wins board row_index heads = Inr (wins', create_initial_board, message @ rest)"
    using battle_step_win [OF shape(1) assms(2,3,4) d assms(5,6), of heads]
    unfolding w assms(9) assms(7) by blast
  have keys: "wins' ''A'' = Some (if a_wins then a + 1 else a)"
    "wins' ''B'' = Some (if a_wins then b else b + 1)"
    "wins' ''DAYS'' = Some 0" "wins' ''RECORD'' = Some r"
    using assms(3,4,5) unfolding assms(8) by simp_all
  show saved: "fst (save_state wins' create_initial_board fs) = Inr ()"
    by (rule save_state_keys) (rule domI, rule keys)+
  have sim: "simulate_battle fs row_index heads
             = (Inr (message @ rest),
                (snd (save_state wins' create_initial_board fs))
                  \<lparr>output_file := Some (message @ rest)\<rparr>)"
    using assms(1) step saved by (rule simulate_battle_step)
  from step sim
  show "\<exists>rest. battle_step wins board row_index heads
                   = Inr (wins', create_initial_board, message @ rest)
               \<and> simulate_battle fs row_index heads
                   = (Inr (message @ rest),
                      (snd (save_state wins' create_initial_board fs))
                        \<lparr>output_file := Some (message @ rest)\<rparr>)"
    by blast
  show "load_state (snd (simulate_battle fs row_index heads))
         = ([''A'' \<mapsto> (if a_wins then a + 1 else a), ''B'' \<mapsto> (if a_wins then b else b + 1),
             ''DAYS'' \<mapsto> 0, ''RECORD'' \<mapsto> r], create_initial_board)"
    using assms(1) step keys grid_shape_initial no_newline_initial
    by (rule simulate_battle_reload(2))
qed

subsection \<open>Moving the boundary of a row\<close>

lemma move_boundary_range:
  "- 1 \<le> move_boundary b heads" "move_boundary b heads \<le> int BOARD_COLS - 1"
  by (simp_all add: move_boundary_def Let_def BOARD_COLS_def)

lemma move_boundary_inner:
  assumes "b \<noteq> int BOARD_COLS - 1" "b \<noteq> - 1" "- 1 \<le> b" "b < int BOARD_COLS"
  shows "move_boundary b heads = (if heads then b + 1 else b - 1)"
  using assms by (simp add: move_boundary_def Let_def BOARD_COLS_def)

lemma new_row_facts:
  assumes "- 1 \<le> nb" "nb \<le> int BOARD_COLS - 1"
    and "row = map (\<lambda>i. if int i \<le> nb then CHR ''A'' else CHR ''B'') [0 ..< BOARD_COLS]"
  shows "length row = BOARD_COLS" "single_boundary row" "boundary row = nb"
    "LF \<notin> set row" "CR \<notin> set row"
proof -
  have row: "row = replicate (nat (nb + 1)) CHR ''A''
                   @ replicate (BOARD_COLS - nat (nb + 1)) CHR ''B''"
    unfolding assms(3) using assms(1,2) by (rule new_row_prefix)
  show len: "length row = BOARD_COLS"
    by (simp add: assms(3))
  have k: "nat (nb + 1) \<le> length row"
    using assms(1,2) len by simp
  show "single_boundary row"
    unfolding single_boundary_iff
    using row k len by (intro exI [of _ "nat (nb + 1)"]) simp
  have "boundary row = int (nat (nb + 1)) - 1"
    by (subst row) (rule boundary_prefix)
  then show "boundary row = nb"
    using assms(1) by simp
  show "LF \<notin> set row" "CR \<notin> set row"
    by (subst row, simp)+
qed

lemma grid_shape_update:
  "grid_shape board \<Longrightarrow> length row = BOARD_COLS \<Longrightarrow> grid_shape (board[i := row])"
  by (auto simp: grid_shape_def list_all_iff dest: set_update_subset_insert [THEN subsetD])

lemma no_newline_update:
  "no_newline board \<Longrightarrow> LF \<notin> set row \<Longrightarrow> CR \<notin> set row \<Longrightarrow> no_newline (board[i := row])"
  unfolding no_newline_def list_all_iff
  using set_update_subset_insert [of board i row] by blast

subsection \<open>Loaded rows hold no line ends\<close>

lemma universal_newlines_no_CR: "CR \<notin> set (universal_newlines s)"
  by (induction s rule: universal_newlines.induct) (auto split: list.splits)

lemma rstrip_nl_subset: "set (rstrip_nl s) \<subseteq> set s"
  using set_dropWhileD [of _ "\<lambda>c. c = LF" "rev s"] by (auto simp: rstrip_nl_def)

lemma rstrip_nl_plain: "LF \<notin> set s \<Longrightarrow> rstrip_nl s = s"
proof -
  assume "LF \<notin> set s"
  then have "dropWhile (\<lambda>c. c = LF) (rev s) = rev s"
    by (intro dropWhile_none) auto
  then show ?thesis by (simp add: rstrip_nl_def)
qed

lemma readlines_acc_chars:
  "l \<in> set (readlines_acc cur s) \<Longrightarrow> set l \<subseteq> set cur \<union> set s"
proof (induction s arbitrary: cur)
  case Nil
  then show ?case by (auto split: if_splits)
next
  case (Cons c cs)
  show ?case
  proof (cases "c = LF")
    case True
    with Cons.prems have "l = cur @ [c] \<or> l \<in> set (readlines_acc [] cs)" by simp
    then show ?thesis using Cons.IH [of "[]"] by auto
  next
    case False
    with Cons.prems have "l \<in> set (readlines_acc (cur @ [c]) cs)" by simp
    then show ?thesis using Cons.IH [of "cur @ [c]"] by auto
  qed
qed

lemma readlines_acc_stripped:
  "LF \<notin> set cur \<Longrightarrow> l \<in> set (readlines_acc cur s) \<Longrightarrow> LF \<notin> set (rstrip_nl l)"
proof (induction s arbitrary: cur)
  case Nil
  then show ?case by (auto simp: rstrip_nl_plain split: if_splits)
next
  case (Cons c cs)
  show ?case
  proof (cases "c = LF")
    case True
    with Cons.prems have "l = cur @ [LF] \<or> l \<in> set (readlines_acc [] cs)" by simp
    then show ?thesis
    proof
      assume "l = cur @ [LF]"
      with Cons.prems(1) show ?thesis by (simp add: rstrip_nl_line)
    next
      assume "l \<in> set (readlines_acc [] cs)"
      then show ?thesis using Cons.IH [of "[]"] by simp
    qed
  next
    case False
    with Cons.prems have "l \<in> set (readlines_acc (cur @ [c]) cs)" "LF \<notin> set (cur @ [c])"
      by auto
    then show ?thesis using Cons.IH [of "cur @ [c]"] by blast
  qed
qed

lemma file_lines_plain:
  assumes "line \<in> set (file_lines content)"
  shows "LF \<notin> set line" "CR \<notin> set line"
proof -
  from assms obtain l where l: "l \<in> set (readlines_acc [] (universal_newlines content))"
    and line: "line = rstrip_nl l"
    by (auto simp: file_lines_def readlines_def)
  show "LF \<notin> set line"
    unfolding line using _ l by (rule readlines_acc_stripped) simp
  have "set l \<subseteq> set (universal_newlines content)"
    using readlines_acc_chars [OF l] by simp
  then have "CR \<notin> set l"
    using universal_newlines_no_CR [of content] by blast
  then show "CR \<notin> set line"
    unfolding line using rstrip_nl_subset [of l] by blast
qed

lemma read_state_no_newline:
  assumes "read_state content = Inr (wins, board)"
  shows "no_newline board"
proof -
  have "board = create_initial_board \<or> board = take BOARD_ROWS (drop 1 (file_lines content))"
    using assms
    by (auto simp: read_state_def Let_def default_state_def split: sum.splits if_splits)
  then show ?thesis
  proof
    assume "board = create_initial_board"
    then show ?thesis by (simp add: no_newline_initial)
  next
    assume "board = take BOARD_ROWS (drop 1 (file_lines content))"
    then have "set board \<subseteq> set (file_lines content)"
      by (auto dest: in_set_takeD in_set_dropD)
    then show ?thesis
      unfolding no_newline_def list_all_iff using file_lines_plain by blast
  qed
qed

lemma load_state_no_newline:
  assumes "load_state fs = (wins, board)"
  shows "no_newline board"
proof -
  have "load_state fs = default_state \<or> (\<exists>content. read_state content = Inr (wins, board))"
    using assms by (auto simp: load_state_def split: option.splits sum.splits)
  then show ?thesis
  proof
    assume "load_state fs = default_state"
    with assms have "board = create_initial_board"
      by (simp add: default_state_def)
    then show ?thesis by (simp add: no_newline_initial)
  next
    assume "\<exists>content. read_state content = Inr (wins, board)"
    then show ?thesis using read_state_no_newline by blast
  qed
qed

subsection \<open>An invocation that moves a boundary\<close>

lemma simulate_battle_move:
  assumes "load_state fs = (wins, board)" and "row_index < BOARD_ROWS"
    and "wins ''A'' = Some a" and "wins ''B'' = Some b"
    and "wins ''DAYS'' = Some d" and "wins ''RECORD'' = Some r"
    and "boundary (board ! row_index) \<noteq> int BOARD_COLS - 1"
    and "boundary (board ! row_index) \<noteq> - 1"
    and "wins' = (if r < d + 1 then wins(''DAYS'' \<mapsto> d + 1, ''RECORD'' \<mapsto> d + 1)
                  else wins(''DAYS'' \<mapsto> d + 1))"
    and "row' = map (\<lambda>i. if int i \<le> move_boundary (boundary (board ! row_index)) heads
                          then CHR ''A'' else CHR ''B'') [0 ..< BOARD_COLS]"
  shows "\<exists>out. battle_step wins board row_index heads = Inr (wins', board[row_index := row'], out)
               \<and> simulate_battle fs row_index heads
                   = (Inr out, (snd (save_state wins' (board[row_index := row']) fs))
                                 \<lparr>output_file := Some out\<rparr>)"
    and "fst (save_state wins' (board[row_index := row']) fs) = Inr ()"
    and "load_state (snd (simulate_battle fs row_index heads))
         = ([''A'' \<mapsto> a, ''B'' \<mapsto> b, ''DAYS'' \<mapsto> d + 1, ''RECORD'' \<mapsto> max r (d + 1)],
            board[row_index := row'])"
proof -
  note shape = load_state_shape(1) [OF assms(1)]
  note row = new_row_facts [OF move_boundary_range assms(10)]
  obtain out where step:
    "battle_step wins board row_index heads = Inr (wins', board[row_index := row'], out)"
    using battle_step_move [OF shape assms(2-8), of heads] unfolding assms(9,10) by blast
  have keys: "wins' ''A'' = Some a" "wins' ''B'' = Some b" "wins' ''DAYS'' = Some (d + 1)"
    "wins' ''RECORD'' = Some (max r (d + 1))"
    using assms(3-6) unfolding assms(9) by (simp_all add: max_def)
  show saved: "fst (save_state wins' (board[row_index := row']) fs) = Inr ()"
    by (rule save_state_keys) (rule domI, rule keys)+
  have sim: "simulate_battle fs row_index heads
             = (Inr out, (snd (save_state wins' (board[row_index := row']) fs))
                           \<lparr>output_file := Some out\<rparr>)"
    using assms(1) step saved by (rule simulate_battle_step)
  from step sim
  show "\<exists>out. battle_step wins board row_index heads = Inr (wins', board[row_index := row'], out)
               \<and> simulate_battle fs row_index heads
                   = (Inr out, (snd (save_state wins' (board[row_index := row']) fs))
                                 \<lparr>output_file := Some out\<rparr>)"
    by blast
  have g: "grid_shape (board[row_index := row'])"
    using shape row(1) by (rule grid_shape_update)
  have n: "no_newline (board[row_index := row'])"
    using load_state_no_newline [OF assms(1)] row(4,5) by (rule no_newline_update)
  show "load_state (snd (simulate_battle fs row_index heads))
         = ([''A'' \<mapsto> a, ''B'' \<mapsto> b, ''DAYS'' \<mapsto> d + 1, ''RECORD'' \<mapsto> max r (d + 1)],
            board[row_index := row'])"
    using assms(1) step keys g n by (rule simulate_battle_reload(2))
qed

subsection \<open>The default state, loaded\<close>

lemma load_state_no_files:
  "load_state no_files
   = ([''A'' \<mapsto> 0, ''B'' \<mapsto> 0, ''DAYS'' \<mapsto> 0, ''RECORD'' \<mapsto> 0],
      [''AAABB'', ''AAABB'', ''AAABB'', ''AABBB'', ''AABBB'', ''AABBB''])"
  by (simp add: load_state_def no_files_def default_state_def create_initial_board_rows)

lemma zero_counters:
  "[''A'' \<mapsto> 0::int, ''B'' \<mapsto> 0, ''DAYS'' \<mapsto> 0, ''RECORD'' \<mapsto> 0] ''A'' = Some 0"
  "[''A'' \<mapsto> 0::int, ''B'' \<mapsto> 0, ''DAYS'' \<mapsto> 0, ''RECORD'' \<mapsto> 0] ''B'' = Some 0"
  "[''A'' \<mapsto> 0::int, ''B'' \<mapsto> 0, ''DAYS'' \<mapsto> 0, ''RECORD'' \<mapsto> 0] ''DAYS'' = Some 0"
  "[''A'' \<mapsto> 0::int, ''B'' \<mapsto> 0, ''DAYS'' \<mapsto> 0, ''RECORD'' \<mapsto> 0] ''RECORD'' = Some 0"
  by simp_all

lemma first_row_inner:
  "boundary ([''AAABB'', ''AAABB'', ''AAABB'', ''AABBB'', ''AABBB'', ''AABBB''] ! 0)
   \<noteq> int BOARD_COLS - 1"
  "boundary ([''AAABB'', ''AAABB'', ''AAABB'', ''AABBB'', ''AABBB'', ''AABBB''] ! 0) \<noteq> - 1"
  by (simp_all add: boundary_small BOARD_COLS_def)

lemma first_row_index: "(0::nat) < BOARD_ROWS"
  by (simp add: BOARD_ROWS_def)

lemma battle_step_counters:
  assumes "battle_step wins board row_index heads = Inr (wins', board', out)"
    and "boundary (board ! row_index) \<noteq> int BOARD_COLS - 1"
    and "boundary (board ! row_index) \<noteq> - 1"
  shows "advance_days wins = Inr wins'"
  using assms by (auto simp: battle_step_def Let_def split: if_splits sum.splits)

subsection \<open>The boards a step can save\<close>

lemma single_boundary_initial: "\<forall>row\<in>set create_initial_board. single_boundary row"
  by (simp add: create_initial_board_rows single_boundary_def)

lemma single_boundary_plain:
  assumes "single_boundary row"
  shows "LF \<notin> set row" "CR \<notin> set row"
proof -
  from assms obtain k where
    row: "row = replicate k CHR ''A'' @ replicate (length row - k) CHR ''B''"
    unfolding single_boundary_iff by blast
  show "LF \<notin> set row" "CR \<notin> set row"
    by (subst row, simp)+
qed

lemma battle_step_board:
  assumes "battle_step wins board row_index heads = Inr (wins', board', out)"
    and "grid_shape board"
  shows "board' = create_initial_board
       \<or> board' = board[row_index :=
                      map (\<lambda>i. if int i \<le> move_boundary (boundary (board ! row_index)) heads
                               then CHR ''A'' else CHR ''B'') [0 ..< BOARD_COLS]]"
proof (cases "boundary (board ! row_index) = int BOARD_COLS - 1
              \<or> boundary (board ! row_index) = - 1")
  case True
  with assms(1) have "board' = create_initial_board"
    by (auto simp: battle_step_def Let_def split: if_splits sum.splits)
  then show ?thesis ..
next
  case False
  from assms(1) have idx: "row_index < length board"
    by (auto simp: battle_step_def split: if_splits)
  with assms(2) have len: "length (board ! row_index) = BOARD_COLS"
    by (simp add: grid_shape_def list_all_length)
  note rw = rewrite_row_ok [OF len, of "move_boundary (boundary (board ! row_index)) heads"]
  from assms(1) False idx have "board' = board[row_index :=
                      map (\<lambda>i. if int i \<le> move_boundary (boundary (board ! row_index)) heads
                               then CHR ''A'' else CHR ''B'') [0 ..< BOARD_COLS]]"
    by (auto simp: battle_step_def Let_def rw split: if_splits sum.splits)
  then show ?thesis ..
qed

subsection \<open>Three invocations on the first row\<close>

lemma step_one:
  "load_state (snd (simulate_battle no_files 0 True))
   = ([''A'' \<mapsto> 0, ''B'' \<mapsto> 0, ''DAYS'' \<mapsto> 1, ''RECORD'' \<mapsto> 1],
      [''AAAAB'', ''AAABB'', ''AAABB'', ''AABBB'', ''AABBB'', ''AABBB''])"
  using simulate_battle_move(3)
    [OF load_state_no_files first_row_index zero_counters first_row_inner refl refl, of True]
  by (simp add: boundary_small move_boundary_def BOARD_COLS_def upt_rec)

lemma step_two:
  "load_state (snd (simulate_battle (snd (simulate_battle no_files 0 True)) 0 True))
   = ([''A'' \<mapsto> 0, ''B'' \<mapsto> 0, ''DAYS'' \<mapsto> 2, ''RECORD'' \<mapsto> 2],
      [''AAAAA'', ''AAABB'', ''AAABB'', ''AABBB'', ''AABBB'', ''AABBB''])"
proof -
  let ?wins = "[''A'' \<mapsto> 0::int, ''B'' \<mapsto> 0, ''DAYS'' \<mapsto> 1, ''RECORD'' \<mapsto> 1]"
  let ?board = "[''AAAAB'', ''AAABB'', ''AAABB'', ''AABBB'', ''AABBB'', ''AABBB'']"
  have keys: "?wins ''A'' = Some 0" "?wins ''B'' = Some 0" "?wins ''DAYS'' = Some 1"
    "?wins ''RECORD'' = Some 1"
    by simp_all
  have inner: "boundary (?board ! 0) \<noteq> int BOARD_COLS - 1" "boundary (?board ! 0) \<noteq> - 1"
    by (simp_all add: boundary_small BOARD_COLS_def)
  show ?thesis
    using simulate_battle_move(3) [OF step_one first_row_index keys inner refl refl, of True]
    by (simp add: boundary_small move_boundary_def BOARD_COLS_def upt_rec)
qed

lemma step_three:
  "load_state (snd (simulate_battle
      (snd (simulate_battle (snd (simulate_battle no_files 0 True)) 0 True)) 0 heads))
   = ([''A'' \<mapsto> 1, ''B'' \<mapsto> 0, ''DAYS'' \<mapsto> 0, ''RECORD'' \<mapsto> 2], create_initial_board)"
  "\<exists>rest. fst (simulate_battle
      (snd (simulate_battle (snd (simulate_battle no_files 0 True)) 0 True)) 0 heads)
     = Inr (ustr ''Faction A wins on row 1!'' @ rest)"
proof -
  let ?wins = "[''A'' \<mapsto> 0::int, ''B'' \<mapsto> 0, ''DAYS'' \<mapsto> 2, ''RECORD'' \<mapsto> 2]"
  let ?board = "[''AAAAA'', ''AAABB'', ''AAABB'', ''AABBB'', ''AABBB'', ''AABBB'']"
  let ?fs = "snd (simulate_battle (snd (simulate_battle no_files 0 True)) 0 True)"
  have keys: "?wins ''A'' = Some 0" "?wins ''B'' = Some 0" "?wins ''RECORD'' = Some 2"
    by simp_all
  have top: "boundary (?board ! 0) = int BOARD_COLS - 1"
    by (simp add: boundary_small BOARD_COLS_def)
  then have edge: "boundary (?board ! 0) = int BOARD_COLS - 1 \<or> boundary (?board ! 0) = - 1" ..
  have t: "True = (boundary (?board ! 0) = int BOARD_COLS - 1)"
    using top by simp
  note win = simulate_battle_win [OF step_two first_row_index keys edge t refl refl]
  show "load_state (snd (simulate_battle ?fs 0 heads))
        = ([''A'' \<mapsto> 1, ''B'' \<mapsto> 0, ''DAYS'' \<mapsto> 0, ''RECORD'' \<mapsto> 2], create_initial_board)"
    using win(3) [of heads] by simp
  from win(1) [of heads] obtain rest where
    "simulate_battle ?fs 0 heads
     = (Inr (ustr (''Faction '' @ (if True then ''A'' else ''B'') @ '' wins on row ''
                   @ str_int (int 0 + 1) @ ''!'') @ rest),
        (snd (save_state (?wins((if True then ''A'' else ''B'') \<mapsto> (if True then 0 else 0) + 1,
                                ''DAYS'' \<mapsto> 0)) create_initial_board ?fs))
          \<lparr>output_file := Some (ustr (''Faction '' @ (if True then ''A'' else ''B'')
                                      @ '' wins on row '' @ str_int (int 0 + 1) @ ''!'') @ rest)\<rparr>)"
    by blast
  then have "fst (simulate_battle ?fs 0 heads) = Inr (ustr ''Faction A wins on row 1!'' @ rest)"
    by (simp add: str_int_def nat_digits.simps digit_char_def char_of_def bit_Suc_0_iff)
  then show "\<exists>rest. fst (simulate_battle ?fs 0 heads)
                    = Inr (ustr ''Faction A wins on row 1!'' @ rest)"
    by blast
qed

subsection \<open>Counter tokens hold no whitespace\<close>

text \<open>The pieces that \<open>load_state\<close> hands to \<open>py_int\<close> come from \<open>split\<close>, so the
  whitespace that \<open>py_int\<close> would drop never occurs in them.\<close>

lemma split_acc_plain:
  "\<forall>c\<in>set cur. \<not> is_space c \<Longrightarrow> w \<in> set (split_acc cur s) \<Longrightarrow> \<forall>c\<in>set w. \<not> is_space c"
proof (induction s arbitrary: cur)
  case Nil
  then show ?case by (auto split: if_splits)
next
  case (Cons x xs)
  show ?case
  proof (cases "is_space x")
    case True
    with Cons.prems have "w = cur \<or> w \<in> set (split_acc [] xs)"
      by (auto split: if_splits)
    then show ?thesis
      using Cons.prems(1) Cons.IH [of "[]"] by auto
  next
    case False
    with Cons.prems have "w \<in> set (split_acc (cur @ [x]) xs)"
      "\<forall>c\<in>set (cur @ [x]). \<not> is_space c"
      by auto
    then show ?thesis using Cons.IH [of "cur @ [x]"] by blast
  qed
qed

lemma split_sep_acc_chars:
  "p \<in> set (split_sep_acc sep cur s) \<Longrightarrow> set p \<subseteq> set cur \<union> set s"
proof (induction s arbitrary: cur)
  case Nil
  then show ?case by simp
next
  case (Cons x xs)
  show ?case
  proof (cases "x = sep")
    case True
    with Cons.prems have "p = cur \<or> p \<in> set (split_sep_acc sep [] xs)" by simp
    then show ?thesis using Cons.IH [of "[]"] by auto
  next
    case False
    with Cons.prems have "p \<in> set (split_sep_acc sep (cur @ [x]) xs)" by simp
    then show ?thesis using Cons.IH [of "cur @ [x]"] by auto
  qed
qed

lemma is_int_space_is_space: "is_int_space c \<Longrightarrow> is_space c"
  by (auto simp: is_int_space_def is_space_def Let_def)

lemma strip_int_token:
  assumes "part \<in> set (split line)" "count \<in> set (split_sep sep part)"
  shows "strip_int count = count"
proof -
  have "\<forall>c\<in>set part. \<not> is_space c"
    using assms(1) split_acc_plain [of "[]" part line] by (simp add: split_def)
  moreover have "set count \<subseteq> set part"
    using assms(2) split_sep_acc_chars [of count sep "[]" part] by (simp add: split_sep_def)
  ultimately have "\<forall>c\<in>set count. \<not> is_int_space c"
    using is_int_space_is_space by blast
  then show ?thesis by (rule strip_int_plain)
qed

subsection \<open>Counters without a tally\<close>




subsection \<open>Counters within the conversion limit, and files without a tally\<close>

lemma str_ok_small: "str_ok 0" "str_ok 1" "str_ok 2" "str_ok 3"
  by (simp_all add: str_ok_def nat_digits.simps int_max_str_digits_def)

lemma counters_ok_keys:
  assumes "counters_ok wins"
  shows "''A'' \<in> dom wins" "''B'' \<in> dom wins" "''DAYS'' \<in> dom wins" "''RECORD'' \<in> dom wins"
  using assms by (simp_all add: counters_ok_def dom_def split: option.splits)

lemma counters_ok_zero:
  "counters_ok [''A'' \<mapsto> 0, ''B'' \<mapsto> 0, ''DAYS'' \<mapsto> 0, ''RECORD'' \<mapsto> 0]"
  by (simp add: counters_ok_def str_ok_small)





subsection \<open>Uniform rows and the boundary\<close>

text \<open>
  C1 (as stated): for every row of 5 cells, with no contiguity assumption,
  \<open>is_row_uniform\<close> holds exactly when the boundary is \<open>-1\<close> or the last column index 4.
  The row \<open>BBBBA\<close> refutes it: its boundary is 4 and it is not uniform.
\<close>

theorem C1_uniform_iff_boundary_counterexample:
  "\<not> (is_row_uniform ''BBBBA'' \<longleftrightarrow> boundary ''BBBBA'' = - 1 \<or> boundary ''BBBBA'' = 4)"
  by (simp add: is_row_uniform_def boundary_def a_indices_def enumerate_eq_zip upt_rec)

text \<open>
  C1 (amended): for every row of 5 cells, a uniform row has boundary \<open>-1\<close> or 4; and for
  every row of 5 cells that is a run of \<open>A\<close>-cells followed by a run of \<open>B\<close>-cells,
  \<open>is_row_uniform\<close> holds exactly when the boundary is \<open>-1\<close> or 4.
\<close>

theorem C1_uniform_iff_boundary:
  assumes "length row = BOARD_COLS"
  shows "(is_row_uniform row \<longrightarrow> boundary row = - 1 \<or> boundary row = int BOARD_COLS - 1)
       \<and> (single_boundary row \<longrightarrow>
            (is_row_uniform row \<longleftrightarrow> boundary row = - 1 \<or> boundary row = int BOARD_COLS - 1))"
proof -
  from assms have ne: "row \<noteq> []" by (auto simp: BOARD_COLS_def)
  show ?thesis
    using uniform_boundary [OF _ ne] single_boundary_uniform [OF _ ne] assms by auto
qed

theorem C1_uniform_iff_boundary_witness:
  "length ''AAAAA'' = BOARD_COLS \<and> single_boundary ''AAAAA'' \<and> is_row_uniform ''AAAAA''
   \<and> boundary ''AAAAA'' = int BOARD_COLS - 1"
proof -
  have len: "length ''AAAAA'' = BOARD_COLS" by (simp add: BOARD_COLS_def)
  have sb: "single_boundary ''AAAAA''" by (simp add: single_boundary_def)
  have u: "is_row_uniform ''AAAAA''" by (simp add: is_row_uniform_def)
  from C1_uniform_iff_boundary [OF len] sb u
  have "boundary ''AAAAA'' = - 1 \<or> boundary ''AAAAA'' = int BOARD_COLS - 1" by blast
  moreover have "boundary ''AAAAA'' \<noteq> - 1" by (simp add: boundary_no_A)
  ultimately show ?thesis using len sb u by simp
qed

subsection \<open>The round trip through the state file\<close>

text \<open>
  C2 (as stated): for every counters mapping with the keys \<open>A\<close>, \<open>B\<close>, \<open>DAYS\<close> and
  \<open>RECORD\<close> and every 6 by 5 grid of single characters, \<open>save_state\<close> followed by
  \<open>load_state\<close> gives back the counters and the grid.  A grid whose first cell is a line
  feed refutes it: the file then has a line more, its rows have the wrong width, and
  \<open>load_state\<close> answers with the default state.
\<close>

theorem C2_save_load_round_trip_counterexample:
  "load_state (snd (save_state (fst default_state)
                      (create_initial_board[0 := LF # ''AABB'']) no_files))
   \<noteq> (fst default_state, create_initial_board[0 := LF # ''AABB''])"
proof -
  let ?rows = "[[], ''AABB'', ''AAABB'', ''AAABB'', ''AABBB'', ''AABBB'', ''AABBB'']"
  let ?text = "counters_text 0 0 0 0 @ LF # concat (map (\<lambda>row. row @ [LF]) ?rows)"
  have line: "wins_line (fst default_state) = Inr (counters_text 0 0 0 0 @ [LF])"
    by (rule wins_line_counters) (simp_all add: default_state_def)
  have sf: "state_file (snd (save_state (fst default_state)
                               (create_initial_board[0 := LF # ''AABB'']) no_files))
            = Some ?text"
    by (simp add: save_state_def line create_initial_board_rows)
  have p: "parse_parts Map.empty (drop 1 (split (counters_text 0 0 0 0)))
           = Inr [''A'' \<mapsto> 0, ''B'' \<mapsto> 0, ''DAYS'' \<mapsto> 0, ''RECORD'' \<mapsto> 0]"
    by (rule parse_counters_text)
  have rd: "read_state ?text = Inr default_state"
    by (subst read_state_lines)
       (simp_all only: counters_text_plain p sum.case,
        simp_all add: BOARD_ROWS_def BOARD_COLS_def)
  have "load_state (snd (save_state (fst default_state)
                           (create_initial_board[0 := LF # ''AABB'']) no_files))
        = default_state"
    by (simp only: load_state_def sf rd option.case sum.case)
  then show ?thesis
    by (simp add: default_state_def create_initial_board_rows)
qed

text \<open>
  C2 (amended): for every counters mapping whose values for the keys \<open>A\<close>, \<open>B\<close>, \<open>DAYS\<close>
  and \<open>RECORD\<close> are integers of at most 4300 decimal digits (the limit up to which the
  interpreter converts an integer to text) and every 6 by 5 grid of single characters
  with code points below 256, none of them a line feed or a carriage return,
  \<open>save_state\<close> succeeds and \<open>load_state\<close> then gives back the grid and the four counters
  that were saved; counters and grid are identical to the saved ones when the mapping
  holds no other key.  The type \<^typ>\<open>char\<close> is the bound on the code points.
\<close>

theorem C2_save_load_round_trip:
  assumes "counters_ok wins"
    and "grid_shape board" and "no_newline board"
  shows "fst (save_state wins board fs) = Inr ()
       \<and> snd (load_state (snd (save_state wins board fs))) = board
       \<and> fst (load_state (snd (save_state wins board fs)))
           = wins |` {''A'', ''B'', ''DAYS'', ''RECORD''}
       \<and> (dom wins = {''A'', ''B'', ''DAYS'', ''RECORD''}
            \<longrightarrow> load_state (snd (save_state wins board fs)) = (wins, board))"
proof -
  from counters_ok_keys [OF assms(1)]
  obtain a b d r where v: "wins ''A'' = Some a" "wins ''B'' = Some b"
    "wins ''DAYS'' = Some d" "wins ''RECORD'' = Some r"
    by blast
  have len: "length board = BOARD_ROWS"
    using assms(2) by (simp add: grid_shape_def)
  have rows: "\<forall>row\<in>set board. length row = BOARD_COLS \<and> LF \<notin> set row \<and> CR \<notin> set row"
    using assms(2,3) by (simp add: grid_shape_def no_newline_def list_all_iff)
  have saved: "fst (save_state wins board fs) = Inr ()"
    using v len rows by (rule save_load_counters(1))
  have loaded: "load_state (snd (save_state wins board fs))
        = ([''A'' \<mapsto> a, ''B'' \<mapsto> b, ''DAYS'' \<mapsto> d, ''RECORD'' \<mapsto> r], board)"
    using v len rows by (rule save_load_counters(4))
  have "[''A'' \<mapsto> a, ''B'' \<mapsto> b, ''DAYS'' \<mapsto> d, ''RECORD'' \<mapsto> r] key
        = (wins |` {''A'', ''B'', ''DAYS'', ''RECORD''}) key" for key
    using v by (simp add: restrict_map_def)
  then have four: "[''A'' \<mapsto> a, ''B'' \<mapsto> b, ''DAYS'' \<mapsto> d, ''RECORD'' \<mapsto> r]
                   = wins |` {''A'', ''B'', ''DAYS'', ''RECORD''}"
    by (rule ext)
  have 1: "snd (load_state (snd (save_state wins board fs))) = board"
    by (simp only: loaded snd_conv)
  have 2: "fst (load_state (snd (save_state wins board fs)))
           = wins |` {''A'', ''B'', ''DAYS'', ''RECORD''}"
    by (simp only: loaded fst_conv four)
  have 3: "load_state (snd (save_state wins board fs)) = (wins, board)"
    if "dom wins = {''A'', ''B'', ''DAYS'', ''RECORD''}"
  proof -
    have "(wins |` dom wins) key = wins key" for key
      by (cases "wins key") (simp_all add: restrict_map_def dom_def)
    then have "wins |` dom wins = wins"
      by (rule ext)
    with that have "wins |` {''A'', ''B'', ''DAYS'', ''RECORD''} = wins" by simp
    with 1 2 show ?thesis by (simp only: prod_eq_iff fst_conv snd_conv simp_thms)
  qed
  from saved 1 2 3 show ?thesis by (intro conjI impI)
qed

theorem C2_save_load_round_trip_witness:
  "counters_ok (fst default_state)
   \<and> dom (fst default_state) = {''A'', ''B'', ''DAYS'', ''RECORD''}
   \<and> grid_shape create_initial_board \<and> no_newline create_initial_board
   \<and> load_state (snd (save_state (fst default_state) create_initial_board no_files))
       = default_state"
proof -
  have d: "dom (fst default_state) = {''A'', ''B'', ''DAYS'', ''RECORD''}"
    by (simp add: default_state_def insert_commute)
  have s: "counters_ok (fst default_state)"
    using counters_ok_zero by (simp add: default_state_def)
  from C2_save_load_round_trip [OF s grid_shape_initial no_newline_initial, of no_files] d
  have "load_state (snd (save_state (fst default_state) create_initial_board no_files))
        = (fst default_state, create_initial_board)"
    by (rule conjunct2 [THEN conjunct2, THEN conjunct2, THEN mp])
  then have "load_state (snd (save_state (fst default_state) create_initial_board no_files))
             = default_state"
    by (simp add: default_state_def)
  with s d grid_shape_initial no_newline_initial show ?thesis by (intro conjI)
qed

subsection \<open>Falling back to the default state\<close>

text \<open>
  C3 (as stated): for every state-file content with a structural mismatch (a wrong line
  count, a grid row whose width is not 5, or an unparsable counter token on the first
  line) \<open>load_state\<close> returns the default state.  A file with a line too many refutes it:
  its line count is not 7, and \<open>load_state\<close> returns the counters and the rows of its
  first seven lines.
\<close>

theorem C3_load_state_fallback_counterexample:
  "length (file_lines (unlines long_lines)) \<noteq> 1 + BOARD_ROWS
   \<and> load_state (state_of_lines long_lines) \<noteq> default_state"
proof -
  have "fst (load_state (state_of_lines long_lines)) ''A'' \<noteq> fst default_state ''A''"
    by (simp add: load_state_long default_state_def)
  then have "load_state (state_of_lines long_lines) \<noteq> default_state" by metis
  then show ?thesis
    by (simp add: example_lines) (simp add: long_lines_def BOARD_ROWS_def)
qed

text \<open>
  C3 (amended): for every state-file content with fewer than 7 lines, or with one of the
  six lines after the first not 5 characters wide, or with an unparsable counter token on
  the first line, \<open>load_state\<close> returns the default state (zero counters and the default
  biased grid); its result is a state, never an error.
\<close>

theorem C3_load_state_fallback:
  assumes "state_file fs = Some content"
    and "length (file_lines content) < 1 + BOARD_ROWS
         \<or> (\<exists>line\<in>set (take BOARD_ROWS (drop 1 (file_lines content))). length line \<noteq> BOARD_COLS)
         \<or> (\<exists>part\<in>set (drop 1 (split (file_lines content ! 0))). \<not> parses part)"
  shows "load_state fs = default_state
       \<and> default_state = ([''A'' \<mapsto> 0, ''B'' \<mapsto> 0, ''DAYS'' \<mapsto> 0, ''RECORD'' \<mapsto> 0],
                          [''AAABB'', ''AAABB'', ''AAABB'', ''AABBB'', ''AABBB'', ''AABBB''])"
  using load_state_default [OF assms]
  by (simp add: default_state_def create_initial_board_rows)

theorem C3_load_state_fallback_witness:
  "state_file (state_of_lines bad_token_lines) = Some (unlines bad_token_lines)
   \<and> \<not> parses ''A:x''
   \<and> ''A:x'' \<in> set (drop 1 (split (file_lines (unlines bad_token_lines) ! 0)))
   \<and> snd (load_state (state_of_lines bad_token_lines))
       = [''AAABB'', ''AAABB'', ''AAABB'', ''AABBB'', ''AABBB'', ''AABBB'']"
proof -
  have f: "state_file (state_of_lines bad_token_lines) = Some (unlines bad_token_lines)"
    by (simp add: state_of_lines_def)
  have p: "\<not> parses ''A:x''"
    by (simp add: parses_def parse_small)
  have m: "''A:x'' \<in> set (drop 1 (split (file_lines (unlines bad_token_lines) ! 0)))"
    unfolding example_lines by (simp add: bad_token_lines_def split_small)
  from p m have "\<exists>part\<in>set (drop 1 (split (file_lines (unlines bad_token_lines) ! 0))). \<not> parses part"
    by blast
  then have "load_state (state_of_lines bad_token_lines) = default_state
       \<and> default_state = ([''A'' \<mapsto> 0, ''B'' \<mapsto> 0, ''DAYS'' \<mapsto> 0, ''RECORD'' \<mapsto> 0],
                          [''AAABB'', ''AAABB'', ''AAABB'', ''AABBB'', ''AABBB'', ''AABBB''])"
    by (intro C3_load_state_fallback [OF f] disjI2)
  then have "snd (load_state (state_of_lines bad_token_lines))
       = [''AAABB'', ''AAABB'', ''AAABB'', ''AABBB'', ''AABBB'', ''AABBB'']"
    by (metis snd_conv)
  with f p m show ?thesis by (intro conjI)
qed

subsection \<open>Rows with other letters\<close>

text \<open>
  C10: \<open>load_state\<close> accepts grid rows with characters other than \<open>A\<close> and \<open>B\<close>.  For
  every file content of at least 7 lines whose first line's counter tokens all parse and
  whose next 6 lines have exactly 5 characters each, the body of \<open>load_state\<close> raises
  nothing and \<open>load_state\<close> returns those 6 lines as the grid, not the default grid; and
  a board so returned can break the cell alphabet, as the rows beginning with \<open>XYZZY\<close> do.
\<close>

theorem C10_load_state_keeps_foreign_cells:
  assumes "state_file fs = Some content"
    and "1 + BOARD_ROWS \<le> length (file_lines content)"
    and "\<forall>part\<in>set (drop 1 (split (file_lines content ! 0))). parses part"
    and "\<forall>line\<in>set (take BOARD_ROWS (drop 1 (file_lines content))). length line = BOARD_COLS"
  shows "snd (load_state fs) = take BOARD_ROWS (drop 1 (file_lines content))
       \<and> (\<exists>wins. read_state content = Inr (wins, take BOARD_ROWS (drop 1 (file_lines content))))
       \<and> \<not> alphabet_ok (snd (load_state (state_of_lines foreign_lines)))"
proof -
  from load_state_grid [OF assms] obtain wins
    where "read_state content = Inr (wins, take BOARD_ROWS (drop 1 (file_lines content)))"
      and "load_state fs = (wins, take BOARD_ROWS (drop 1 (file_lines content)))"
    by blast
  moreover have "\<not> alphabet_ok (snd (load_state (state_of_lines foreign_lines)))"
    unfolding load_state_foreign by (simp add: alphabet_ok_def)
  ultimately show ?thesis by auto
qed

theorem C10_load_state_keeps_foreign_cells_witness:
  "state_file (state_of_lines foreign_lines) = Some (unlines foreign_lines)
   \<and> 1 + BOARD_ROWS \<le> length (file_lines (unlines foreign_lines))
   \<and> list_all parses (drop 1 (split (file_lines (unlines foreign_lines) ! 0)))
   \<and> list_all (\<lambda>line. length line = BOARD_COLS)
        (take BOARD_ROWS (drop 1 (file_lines (unlines foreign_lines))))
   \<and> snd (load_state (state_of_lines foreign_lines))
       = [''XYZZY'', ''AAABB'', ''AAABB'', ''AABBB'', ''AABBB'', ''AABBB'']"
proof -
  have f: "state_file (state_of_lines foreign_lines) = Some (unlines foreign_lines)"
    by (simp add: state_of_lines_def)
  have n: "1 + BOARD_ROWS \<le> length (file_lines (unlines foreign_lines))"
    unfolding example_lines by (simp add: foreign_lines_def BOARD_ROWS_def)
  have p: "list_all parses (drop 1 (split (file_lines (unlines foreign_lines) ! 0)))"
    unfolding example_lines
    by (simp add: foreign_lines_def split_small parses_def parse_small)
  have w: "list_all (\<lambda>line. length line = BOARD_COLS)
             (take BOARD_ROWS (drop 1 (file_lines (unlines foreign_lines))))"
    unfolding example_lines by (simp add: foreign_lines_def BOARD_ROWS_def BOARD_COLS_def)
  have t: "take BOARD_ROWS (drop 1 (file_lines (unlines foreign_lines)))
           = [''XYZZY'', ''AAABB'', ''AAABB'', ''AABBB'', ''AABBB'', ''AABBB'']"
    unfolding example_lines by (simp add: foreign_lines_def BOARD_ROWS_def)
  from C10_load_state_keeps_foreign_cells [OF f n p [unfolded list_all_iff] w [unfolded list_all_iff]]
  have "snd (load_state (state_of_lines foreign_lines))
        = take BOARD_ROWS (drop 1 (file_lines (unlines foreign_lines)))"
    by (rule conjunct1)
  with f n p w show ?thesis unfolding t by (intro conjI)
qed

subsection \<open>The win branch\<close>




text \<open>
  C8: the win branch of \<open>simulate_battle\<close> leaves \<open>RECORD\<close> and the loser's tally as they
  were.  Of the counters it saves, only the winner's tally and \<open>DAYS\<close> differ from the
  loaded ones, and the next \<open>load_state\<close> finds the same record and the same tally of the
  loser.  As for C4, the loaded counters hold the two tallies.
\<close>

theorem C8_win_branch_frame:
  assumes "load_state fs = (wins, board)" and "row_index < BOARD_ROWS"
    and "wins ''A'' = Some a" and "wins ''B'' = Some b"
    and "boundary (board ! row_index) = int BOARD_COLS - 1 \<or> boundary (board ! row_index) = - 1"
  shows "let winner = (if boundary (board ! row_index) = int BOARD_COLS - 1 then ''A'' else ''B'');
             loser = (if boundary (board ! row_index) = int BOARD_COLS - 1 then ''B'' else ''A'');
             fs' = snd (simulate_battle fs row_index heads)
         in (\<exists>wins' out.
               battle_step wins board row_index heads = Inr (wins', create_initial_board, out)
               \<and> simulate_battle fs row_index heads
                   = (Inr out, (snd (save_state wins' create_initial_board fs))
                                 \<lparr>output_file := Some out\<rparr>)
               \<and> wins' ''RECORD'' = wins ''RECORD''
               \<and> wins' loser = wins loser
               \<and> (\<forall>key. key \<noteq> winner \<and> key \<noteq> ''DAYS'' \<longrightarrow> wins' key = wins key))
          \<and> fst (load_state fs') ''RECORD'' = wins ''RECORD''
          \<and> fst (load_state fs') loser = wins loser"
proof -
  define a_wins where "a_wins = (boundary (board ! row_index) = int BOARD_COLS - 1)"
  define wins' where
    "wins' = wins((if a_wins then ''A'' else ''B'') \<mapsto> (if a_wins then a else b) + 1, ''DAYS'' \<mapsto> 0)"
  define message where
    "message = ustr (''Faction '' @ (if a_wins then ''A'' else ''B'') @ '' wins on row ''
                     @ str_int (int row_index + 1) @ ''!'')"
  from load_state_shape(3) [OF assms(1)] obtain r where r: "wins ''RECORD'' = Some r"
    by blast
  note win = simulate_battle_win [OF assms(1-4) r assms(5) a_wins_def wins'_def message_def]
  from win(1) [of heads] obtain rest where
    step: "battle_step wins board row_index heads
           = Inr (wins', create_initial_board, message @ rest)"
    and sim: "simulate_battle fs row_index heads
              = (Inr (message @ rest), (snd (save_state wins' create_initial_board fs))
                                         \<lparr>output_file := Some (message @ rest)\<rparr>)"
    by blast
  have frame: "wins' ''RECORD'' = wins ''RECORD''"
    "wins' (if a_wins then ''B'' else ''A'') = wins (if a_wins then ''B'' else ''A'')"
    "\<forall>key. key \<noteq> (if a_wins then ''A'' else ''B'') \<and> key \<noteq> ''DAYS'' \<longrightarrow> wins' key = wins key"
    unfolding wins'_def by simp_all
  have 1: "\<exists>wins' out.
             battle_step wins board row_index heads = Inr (wins', create_initial_board, out)
             \<and> simulate_battle fs row_index heads
                 = (Inr out, (snd (save_state wins' create_initial_board fs))
                               \<lparr>output_file := Some out\<rparr>)
             \<and> wins' ''RECORD'' = wins ''RECORD''
             \<and> wins' (if a_wins then ''B'' else ''A'') = wins (if a_wins then ''B'' else ''A'')
             \<and> (\<forall>key. key \<noteq> (if a_wins then ''A'' else ''B'') \<and> key \<noteq> ''DAYS''
                       \<longrightarrow> wins' key = wins key)"
    using step sim frame by blast
  have 2: "fst (load_state (snd (simulate_battle fs row_index heads))) ''RECORD'' = wins ''RECORD''"
    by (simp add: win(3) r)
  have 3: "fst (load_state (snd (simulate_battle fs row_index heads))) (if a_wins then ''B'' else ''A'')
           = wins (if a_wins then ''B'' else ''A'')"
    by (simp add: win(3) assms(3,4))
  show ?thesis
    unfolding Let_def a_wins_def [symmetric]
    using 1 2 3 by (intro conjI)
qed

theorem C8_win_branch_frame_witness:
  "load_state (state_of_lines won_lines)
     = ([''A'' \<mapsto> 0, ''B'' \<mapsto> 0, ''DAYS'' \<mapsto> 2, ''RECORD'' \<mapsto> 2],
        [''AAAAA'', ''AAABB'', ''AAABB'', ''AABBB'', ''AABBB'', ''AABBB''])
   \<and> boundary ''AAAAA'' = int BOARD_COLS - 1
   \<and> fst (load_state (snd (simulate_battle (state_of_lines won_lines) 0 False))) ''RECORD'' = Some 2
   \<and> fst (load_state (snd (simulate_battle (state_of_lines won_lines) 0 False))) ''B'' = Some 0"
proof -
  let ?board = "[''AAAAA'', ''AAABB'', ''AAABB'', ''AABBB'', ''AABBB'', ''AABBB'']"
  have b: "boundary ''AAAAA'' = int BOARD_COLS - 1"
    by (simp add: boundary_small BOARD_COLS_def)
  have h: "boundary (?board ! 0) = int BOARD_COLS - 1 \<or> boundary (?board ! 0) = - 1"
    using b by simp
  have r: "(0::nat) < BOARD_ROWS" by (simp add: BOARD_ROWS_def)
  have a: "[''A'' \<mapsto> 0::int, ''B'' \<mapsto> 0, ''DAYS'' \<mapsto> 2, ''RECORD'' \<mapsto> 2] ''A'' = Some 0"
    "[''A'' \<mapsto> 0::int, ''B'' \<mapsto> 0, ''DAYS'' \<mapsto> 2, ''RECORD'' \<mapsto> 2] ''B'' = Some 0"
    by simp_all
  from C8_win_branch_frame [OF load_state_won r a h, of False] b
  have "fst (load_state (snd (simulate_battle (state_of_lines won_lines) 0 False))) ''RECORD'' = Some 2
      \<and> fst (load_state (snd (simulate_battle (state_of_lines won_lines) 0 False))) ''B'' = Some 0"
    by (simp add: Let_def)
  with load_state_won b show ?thesis by simp
qed

subsection \<open>The branch without a win\<close>




text \<open>
  C7: for every loaded state, once the branch without a win has updated the counters
  (\<open>DAYS\<close> plus 1, \<open>RECORD\<close> raised if \<open>DAYS\<close> exceeds it), \<open>DAYS\<close> is at most \<open>RECORD\<close>.
  The update never raises on a loaded state, and whenever that branch completes, the
  counters it hands to \<open>save_state\<close> are the updated ones.
\<close>

theorem C7_days_within_record:
  assumes "load_state fs = (wins, board)"
  shows "\<exists>wins' d0 d r.
           wins ''DAYS'' = Some d0 \<and> advance_days wins = Inr wins'
           \<and> wins' ''DAYS'' = Some d \<and> wins' ''RECORD'' = Some r \<and> d = d0 + 1 \<and> d \<le> r
           \<and> (\<forall>row_index heads saved board' out.
                 boundary (board ! row_index) \<noteq> int BOARD_COLS - 1
                 \<and> boundary (board ! row_index) \<noteq> - 1
                 \<and> battle_step wins board row_index heads = Inr (saved, board', out)
                 \<longrightarrow> saved = wins')"
proof -
  from load_state_shape(2,3) [OF assms] obtain d0 r0
    where d0: "wins ''DAYS'' = Some d0" and r0: "wins ''RECORD'' = Some r0"
    by blast
  define wins' where
    "wins' = (if r0 < d0 + 1 then wins(''DAYS'' \<mapsto> d0 + 1, ''RECORD'' \<mapsto> d0 + 1)
              else wins(''DAYS'' \<mapsto> d0 + 1))"
  have adv: "advance_days wins = Inr wins'"
    unfolding wins'_def using d0 r0 by (rule advance_days_ok)
  have d: "wins' ''DAYS'' = Some (d0 + 1)"
    by (simp add: wins'_def)
  have r: "wins' ''RECORD'' = Some (max r0 (d0 + 1))"
    using r0 by (simp add: wins'_def max_def)
  have link: "\<forall>row_index heads saved board' out.
                 boundary (board ! row_index) \<noteq> int BOARD_COLS - 1
                 \<and> boundary (board ! row_index) \<noteq> - 1
                 \<and> battle_step wins board row_index heads = Inr (saved, board', out)
                 \<longrightarrow> saved = wins'"
    using battle_step_counters [of wins board] adv by fastforce
  have "d0 + 1 \<le> max r0 (d0 + 1)" by simp
  with d0 adv d r link show ?thesis by blast
qed

theorem C7_days_within_record_witness:
  "load_state (state_of_lines won_lines)
     = ([''A'' \<mapsto> 0, ''B'' \<mapsto> 0, ''DAYS'' \<mapsto> 2, ''RECORD'' \<mapsto> 2],
        [''AAAAA'', ''AAABB'', ''AAABB'', ''AABBB'', ''AABBB'', ''AABBB''])
   \<and> (\<exists>wins' d r. advance_days [''A'' \<mapsto> 0, ''B'' \<mapsto> 0, ''DAYS'' \<mapsto> 2, ''RECORD'' \<mapsto> 2] = Inr wins'
          \<and> wins' ''DAYS'' = Some d \<and> wins' ''RECORD'' = Some r \<and> d = 3 \<and> d \<le> r)"
proof -
  from C7_days_within_record [OF load_state_won]
  have "\<exists>wins' d r. advance_days [''A'' \<mapsto> 0, ''B'' \<mapsto> 0, ''DAYS'' \<mapsto> 2, ''RECORD'' \<mapsto> 2] = Inr wins'
          \<and> wins' ''DAYS'' = Some d \<and> wins' ''RECORD'' = Some r \<and> d = 3 \<and> d \<le> r"
    by fastforce
  with load_state_won show ?thesis by (rule conjI)
qed

subsection \<open>The row invariant\<close>

text \<open>
  C6: the battle step keeps the single-boundary invariant of the rows.  If every row of
  the loaded board is a run of \<open>A\<close>-cells followed by a run of \<open>B\<close>-cells, then every row
  of the board that \<open>simulate_battle\<close> saves, in the win branch and in the other one, is
  of that form too, and so is every row of the board the next \<open>load_state\<close> returns.
\<close>

theorem C6_single_boundary_preserved:
  assumes "load_state fs = (wins, board)"
    and "\<forall>row\<in>set board. single_boundary row"
    and "simulate_battle fs row_index heads = (Inr out, fs')"
  shows "\<exists>wins' board'.
           battle_step wins board row_index heads = Inr (wins', board', out)
           \<and> fs' = (snd (save_state wins' board' fs))\<lparr>output_file := Some out\<rparr>
           \<and> (\<forall>row\<in>set board'. single_boundary row)
           \<and> snd (load_state fs') = board'"
proof -
  from simulate_battle_cases [OF assms(1), of row_index heads] assms(3)
  obtain wins' board' where step: "battle_step wins board row_index heads = Inr (wins', board', out)"
    and fs': "fs' = (snd (save_state wins' board' fs))\<lparr>output_file := Some out\<rparr>"
    by auto
  note shape = load_state_shape(1) [OF assms(1)]
  define row' where
    "row' = map (\<lambda>i. if int i \<le> move_boundary (boundary (board ! row_index)) heads
                     then CHR ''A'' else CHR ''B'') [0 ..< BOARD_COLS]"
  note row = new_row_facts [OF move_boundary_range row'_def]
  have cases: "board' = create_initial_board \<or> board' = board[row_index := row']"
    unfolding row'_def using step shape by (rule battle_step_board)
  have inv: "\<forall>row\<in>set board'. single_boundary row"
    using cases
  proof
    assume "board' = create_initial_board"
    then show ?thesis by (simp add: single_boundary_initial)
  next
    assume "board' = board[row_index := row']"
    then have "set board' \<subseteq> insert row' (set board)"
      by (simp add: set_update_subset_insert)
    with assms(2) row(2) show ?thesis by blast
  qed
  have g: "grid_shape board'"
    using cases grid_shape_initial grid_shape_update [OF shape row(1), of row_index] by auto
  have n: "no_newline board'"
    unfolding no_newline_def list_all_iff using inv single_boundary_plain by blast
  from battle_step_keys [OF step] obtain a b d r where keys: "wins' ''A'' = Some a"
    "wins' ''B'' = Some b" "wins' ''DAYS'' = Some d" "wins' ''RECORD'' = Some r"
    by blast
  have "load_state (snd (simulate_battle fs row_index heads))
        = ([''A'' \<mapsto> a, ''B'' \<mapsto> b, ''DAYS'' \<mapsto> d, ''RECORD'' \<mapsto> r], board')"
    using assms(1) step keys g n by (rule simulate_battle_reload(2))
  then have "snd (load_state fs') = board'"
    by (simp add: assms(3))
  with step fs' inv show ?thesis by blast
qed

theorem C6_single_boundary_preserved_witness:
  "list_all single_boundary (snd (load_state no_files))
   \<and> (\<exists>out. fst (simulate_battle no_files 0 True) = Inr out)
   \<and> list_all single_boundary (snd (load_state (snd (simulate_battle no_files 0 True))))"
proof -
  have inv: "\<forall>row\<in>set [''AAABB'', ''AAABB'', ''AAABB'', ''AABBB'', ''AABBB'', ''AABBB''].
               single_boundary row"
    using single_boundary_initial by (simp add: create_initial_board_rows)
  from simulate_battle_move(1)
    [OF load_state_no_files first_row_index zero_counters first_row_inner refl refl, of True]
  obtain out where out: "fst (simulate_battle no_files 0 True) = Inr out"
    by auto
  then have sim: "simulate_battle no_files 0 True = (Inr out, snd (simulate_battle no_files 0 True))"
    by (simp add: prod_eq_iff)
  from C6_single_boundary_preserved [OF load_state_no_files inv sim]
  have "list_all single_boundary (snd (load_state (snd (simulate_battle no_files 0 True))))"
    unfolding list_all_iff by auto
  moreover have "list_all single_boundary (snd (load_state no_files))"
    using inv by (simp add: load_state_no_files list_all_iff)
  ultimately show ?thesis using out by blast
qed

subsection \<open>The example of the specification\<close>

text \<open>
  C9: row 0 of the default grid is \<open>AAABB\<close>, with boundary 2.  One battle step on that
  row with the coin at \<open>+1\<close> makes it \<open>AAAAB\<close>.  Two further battle steps on the same row
  with the coin at \<open>+1\<close> yield a win for \<open>A\<close> on that row: the first of them makes the row
  \<open>AAAAA\<close>, leaving the tally of \<open>A\<close> at 0, and the second finds the boundary at the last
  column, announces the win of \<open>A\<close> on row 1 and raises the tally of \<open>A\<close> to 1.
\<close>

theorem C9_three_steps_on_row_one:
  "let s1 = snd (simulate_battle no_files 0 True);
       s2 = snd (simulate_battle s1 0 True);
       s3 = snd (simulate_battle s2 0 True)
   in create_initial_board ! 0 = ''AAABB''
    \<and> snd (load_state no_files) ! 0 = ''AAABB''
    \<and> boundary ''AAABB'' = 2
    \<and> snd (load_state s1) ! 0 = ''AAAAB''
    \<and> snd (load_state s2) ! 0 = ''AAAAA''
    \<and> fst (load_state s2) ''A'' = Some 0
    \<and> (\<exists>rest. fst (simulate_battle s2 0 True) = Inr (ustr ''Faction A wins on row 1!'' @ rest))
    \<and> fst (load_state s3) ''A'' = Some 1"
  unfolding Let_def
  using step_three(2) [of True]
  by (simp add: step_one step_two step_three(1) load_state_no_files create_initial_board_rows
      boundary_small)

end
